theory Spec2Isabelle
  imports Complex_Main "HOL-Library.Log_Nat"
begin

section \<open>Single-precision floating point\<close>

text \<open>
  The C++ type \<open>float\<close> is taken to be the IEEE-754 binary32 format, every operation
  rounded once to nearest, ties to even. A finite value is a sign, a magnitude \<open>m\<close>
  and an exponent \<open>e\<close> and stands for \<open>\<plusminus> m * 2 ^ e\<close>; the sign is \<open>True\<close> for a
  negative value, so both zeros exist. All NaN payloads are one value \<open>NaN\<close>.
\<close>

datatype float = NaN | Infinity bool | Finite bool nat int

text \<open>
  The values that binary32 has: 24 bits of magnitude, the exponent of the last bit
  between \<open>-149\<close> and \<open>104\<close>, and the leading bit set whenever the exponent is not the
  least one. Each binary32 value has exactly one such representation.
\<close>

fun is_binary32 :: "float \<Rightarrow> bool" where
  "is_binary32 (Finite s m e) =
     (m < 2 ^ 24 \<and> - 149 \<le> e \<and> e \<le> 104 \<and> (e = - 149 \<or> 2 ^ 23 \<le> m))"
| "is_binary32 _ = True"

definition pow2 :: "int \<Rightarrow> real" where
  "pow2 e = (if 0 \<le> e then 2 ^ nat e else 1 / 2 ^ nat (- e))"

fun valof :: "float \<Rightarrow> real" where
  "valof (Finite s m e) = (if s then - 1 else 1) * real m * pow2 e"
| "valof _ = 0"

fun is_nan :: "float \<Rightarrow> bool" where
  "is_nan NaN = True"
| "is_nan _ = False"

fun is_finite :: "float \<Rightarrow> bool" where
  "is_finite (Finite s m e) = True"
| "is_finite _ = False"

subsection \<open>Comparison\<close>

text \<open>
  Two floats stand in exactly one of four relations; unordered when either is NaN.
  The C++ operators read the relation: \<open>==\<close> is equal, \<open><\<close> is less, \<open>>\<close> is greater
  and \<open>!=\<close> is less, greater or unordered.
\<close>

datatype relation = Less | Equal | Greater | Unordered

definition rel_of :: "real \<Rightarrow> real \<Rightarrow> relation" where
  "rel_of a b = (if a < b then Less else if a = b then Equal else Greater)"

fun fcompare :: "float \<Rightarrow> float \<Rightarrow> relation" where
  "fcompare NaN b = Unordered"
| "fcompare a NaN = Unordered"
| "fcompare (Infinity s) (Infinity t) = (if s = t then Equal else if s then Less else Greater)"
| "fcompare (Infinity s) (Finite t n f) = (if s then Less else Greater)"
| "fcompare (Finite s m e) (Infinity t) = (if t then Greater else Less)"
| "fcompare (Finite s m e) (Finite t n f) = rel_of (valof (Finite s m e)) (valof (Finite t n f))"

definition feq :: "float \<Rightarrow> float \<Rightarrow> bool" where
  "feq a b = (fcompare a b = Equal)"

definition fne :: "float \<Rightarrow> float \<Rightarrow> bool" where
  "fne a b = (case fcompare a b of Less \<Rightarrow> True | Equal \<Rightarrow> False | Greater \<Rightarrow> True | Unordered \<Rightarrow> True)"

definition flt :: "float \<Rightarrow> float \<Rightarrow> bool" where
  "flt a b = (fcompare a b = Less)"

definition fgt :: "float \<Rightarrow> float \<Rightarrow> bool" where
  "fgt a b = (fcompare a b = Greater)"

definition fle :: "float \<Rightarrow> float \<Rightarrow> bool" where
  "fle a b = (fcompare a b = Less \<or> fcompare a b = Equal)"

subsection \<open>Rounding\<close>

text \<open>
  \<open>rne M k\<close> is \<open>M / 2 ^ k\<close> rounded to the nearest integer, a tie going to the even
  one.
\<close>

definition rne :: "nat \<Rightarrow> nat \<Rightarrow> nat" where
  "rne M k =
     (let q = M div 2 ^ k; r = M mod 2 ^ k
      in if 2 ^ k < 2 * r \<or> (2 * r = 2 ^ k \<and> odd q) then q + 1 else q)"

definition pack :: "bool \<Rightarrow> nat \<Rightarrow> int \<Rightarrow> float" where
  "pack s m e = (if 104 < e then Infinity s else Finite s m e)"

text \<open>
  \<open>fround s M E\<close> is the binary32 value nearest to \<open>\<plusminus> M * 2 ^ E\<close>. The exponent of
  the result keeps 24 bits of \<open>M\<close> and is not below \<open>-149\<close>; a magnitude that rounds up
  to \<open>2 ^ 24\<close> is renormalised, and an exponent above \<open>104\<close> is an overflow to infinity.
\<close>

definition fround :: "bool \<Rightarrow> nat \<Rightarrow> int \<Rightarrow> float" where
  "fround s M E =
     (if M = 0 then Finite s 0 (- 149)
      else
        let e0 = max (E + int (floorlog 2 M) - 24) (- 149)
        in if e0 \<le> E then pack s (M * 2 ^ nat (E - e0)) e0
           else
             let m = rne M (nat (e0 - E))
             in if m = 2 ^ 24 then pack s (2 ^ 23) (e0 + 1) else pack s m e0)"

text \<open>
  The quotient \<open>n / d\<close> of two positive integers, times \<open>2 ^ E\<close>, rounded. The integer
  quotient is taken with at least 27 bits and its last bit records whether anything
  was left over, so the rounding sees on which side of a tie the exact quotient is.
\<close>

definition fround_quot :: "bool \<Rightarrow> nat \<Rightarrow> nat \<Rightarrow> int \<Rightarrow> float" where
  "fround_quot s n d E =
     (let K = floorlog 2 d + 26;
          q = (n * 2 ^ K) div d;
          sticky = (if (n * 2 ^ K) mod d = 0 then 0 else 1)
      in fround s (2 * q + sticky) (E - int K - 1))"

text \<open>The integer square root, two bits at a time.\<close>

fun isqrt :: "nat \<Rightarrow> nat" where
  "isqrt n =
     (if n < 2 then n
      else let r = 2 * isqrt (n div 4)
           in if (r + 1) * (r + 1) \<le> n then r + 1 else r)"

declare isqrt.simps [simp del]

text \<open>
  The square root of \<open>m * 2 ^ e\<close>, rounded: the radicand is scaled by an even power of
  two to at least 53 bits, and the last bit of the integer root records inexactness.
\<close>

definition fround_sqrt :: "nat \<Rightarrow> int \<Rightarrow> float" where
  "fround_sqrt m e =
     (let K = 52 + nat (e mod 2);
          N = m * 2 ^ K;
          r = isqrt N;
          sticky = (if r * r = N then 0 else 1)
      in fround False (2 * r + sticky) ((e - int K) div 2 - 1))"

subsection \<open>Arithmetic\<close>

fun fneg :: "float \<Rightarrow> float" where
  "fneg NaN = NaN"
| "fneg (Infinity s) = Infinity (\<not> s)"
| "fneg (Finite s m e) = Finite (\<not> s) m e"

fun fmul :: "float \<Rightarrow> float \<Rightarrow> float" where
  "fmul NaN b = NaN"
| "fmul a NaN = NaN"
| "fmul (Infinity s) (Infinity t) = Infinity (s \<noteq> t)"
| "fmul (Infinity s) (Finite t n f) = (if n = 0 then NaN else Infinity (s \<noteq> t))"
| "fmul (Finite s m e) (Infinity t) = (if m = 0 then NaN else Infinity (s \<noteq> t))"
| "fmul (Finite s m e) (Finite t n f) = fround (s \<noteq> t) (m * n) (e + f)"

fun fdiv :: "float \<Rightarrow> float \<Rightarrow> float" where
  "fdiv NaN b = NaN"
| "fdiv a NaN = NaN"
| "fdiv (Infinity s) (Infinity t) = NaN"
| "fdiv (Infinity s) (Finite t n f) = Infinity (s \<noteq> t)"
| "fdiv (Finite s m e) (Infinity t) = Finite (s \<noteq> t) 0 (- 149)"
| "fdiv (Finite s m e) (Finite t n f) =
     (if n = 0 then (if m = 0 then NaN else Infinity (s \<noteq> t))
      else if m = 0 then Finite (s \<noteq> t) 0 (- 149)
      else fround_quot (s \<noteq> t) m n (e - f))"

text \<open>
  A sum of two finite values is exact as an integer multiple of the smaller unit. An
  exact zero sum is \<open>+0\<close>, except that \<open>-0 + -0\<close> is \<open>-0\<close>.
\<close>

definition signed :: "bool \<Rightarrow> nat \<Rightarrow> int" where
  "signed s m = (if s then - int m else int m)"

fun fadd :: "float \<Rightarrow> float \<Rightarrow> float" where
  "fadd NaN b = NaN"
| "fadd a NaN = NaN"
| "fadd (Infinity s) (Infinity t) = (if s = t then Infinity s else NaN)"
| "fadd (Infinity s) (Finite t n f) = Infinity s"
| "fadd (Finite s m e) (Infinity t) = Infinity t"
| "fadd (Finite s m e) (Finite t n f) =
     (let E = min e f;
          T = signed s m * 2 ^ nat (e - E) + signed t n * 2 ^ nat (f - E)
      in if T = 0 then Finite (s \<and> t) 0 (- 149)
         else fround (T < 0) (nat \<bar>T\<bar>) E)"

definition fsub :: "float \<Rightarrow> float \<Rightarrow> float" where
  "fsub a b = fadd a (fneg b)"

fun fsqrt :: "float \<Rightarrow> float" where
  "fsqrt NaN = NaN"
| "fsqrt (Infinity s) = (if s then NaN else Infinity False)"
| "fsqrt (Finite s m e) =
     (if m = 0 then Finite s 0 (- 149)
      else if s then NaN
      else fround_sqrt m e)"

text \<open>
  Rounding to an integral value keeps the sign, also of a zero result. \<open>frac_split\<close>
  gives the integer part of the magnitude and whether twice the fraction is zero,
  below one, one, or above one; a value whose exponent is not negative is integral.
\<close>

definition fint :: "(nat \<Rightarrow> nat \<Rightarrow> nat \<Rightarrow> nat) \<Rightarrow> float \<Rightarrow> float" where
  "fint pick a =
     (case a of
        Finite s m e \<Rightarrow>
          if 0 \<le> e then a
          else fround s (pick (m div 2 ^ nat (- e)) (m mod 2 ^ nat (- e)) (2 ^ nat (- e))) 0
      | _ \<Rightarrow> a)"

definition fceil :: "float \<Rightarrow> float" where
  "fceil a =
     (case a of
        Finite s m e \<Rightarrow> fint (\<lambda>q r d. if s \<or> r = 0 then q else q + 1) a
      | _ \<Rightarrow> a)"

definition ffloor :: "float \<Rightarrow> float" where
  "ffloor a =
     (case a of
        Finite s m e \<Rightarrow> fint (\<lambda>q r d. if s \<and> r \<noteq> 0 then q + 1 else q) a
      | _ \<Rightarrow> a)"

definition fround_away :: "float \<Rightarrow> float" where
  "fround_away a = fint (\<lambda>q r d. if d \<le> 2 * r then q + 1 else q) a"

text \<open>A decimal literal \<open>n / d\<close> with suffix \<open>f\<close> is the nearest binary32 value.\<close>

definition fliteral :: "bool \<Rightarrow> nat \<Rightarrow> nat \<Rightarrow> float" where
  "fliteral s n d = (if n = 0 then Finite s 0 (- 149) else fround_quot s n d 0)"

definition fzero :: float where
  "fzero = Finite False 0 (- 149)"

definition fone :: float where
  "fone = Finite False (2 ^ 23) (- 23)"

section \<open>Math.h\<close>

text \<open>
  The rounding templates are modelled at their default \<open>Type = float\<close>, where the
  \<open>static_cast\<close> is the identity.
\<close>

definition Ceiling :: "float \<Rightarrow> float" where
  "Ceiling value = fceil value"

definition Ceiling2 :: "float \<Rightarrow> float \<Rightarrow> float" where
  "Ceiling2 value multiplier = fmul (Ceiling (fdiv value multiplier)) multiplier"

definition Floor :: "float \<Rightarrow> float" where
  "Floor value = ffloor value"

definition Floor2 :: "float \<Rightarrow> float \<Rightarrow> float" where
  "Floor2 value multiplier = fmul (Floor (fdiv value multiplier)) multiplier"

definition Round :: "float \<Rightarrow> float" where
  "Round value = fround_away value"

definition Round2 :: "float \<Rightarrow> float \<Rightarrow> float" where
  "Round2 value multiplier = fmul (Round (fdiv value multiplier)) multiplier"

definition Sign :: "float \<Rightarrow> float" where
  "Sign value = (if flt value fzero then fneg fone else fone)"

definition Sqrt :: "float \<Rightarrow> float" where
  "Sqrt value = fsqrt value"

section \<open>Vector.h and Vector.inl\<close>

record Vector2f =
  x :: float
  y :: float

text \<open>
  The three constructors. The member initialisers \<open>x(), y()\<close> of the first one
  value-initialise a \<open>float\<close>, which is \<open>+0\<close>.
\<close>

definition Vector2f_0 :: Vector2f where
  "Vector2f_0 = \<lparr>x = fzero, y = fzero\<rparr>"

definition Vector2f_1 :: "float \<Rightarrow> Vector2f" where
  "Vector2f_1 value = \<lparr>x = value, y = value\<rparr>"

definition Vector2f_2 :: "float \<Rightarrow> float \<Rightarrow> Vector2f" where
  "Vector2f_2 a b = \<lparr>x = a, y = b\<rparr>"

definition AxisX :: Vector2f where
  "AxisX = Vector2f_2 fone fzero"

definition AxisY :: Vector2f where
  "AxisY = Vector2f_2 fzero fone"

definition One :: Vector2f where
  "One = Vector2f_1 fone"

definition Zero :: Vector2f where
  "Zero = Vector2f_1 fzero"

definition op_eq :: "Vector2f \<Rightarrow> Vector2f \<Rightarrow> bool" where
  "op_eq this rhs = (feq (x this) (x rhs) \<and> feq (y this) (y rhs))"

definition op_ne :: "Vector2f \<Rightarrow> Vector2f \<Rightarrow> bool" where
  "op_ne this rhs = (fne (x this) (x rhs) \<or> fne (y this) (y rhs))"

definition op_add :: "Vector2f \<Rightarrow> Vector2f \<Rightarrow> Vector2f" where
  "op_add this rhs = Vector2f_2 (fadd (x this) (x rhs)) (fadd (y this) (y rhs))"

definition op_sub :: "Vector2f \<Rightarrow> Vector2f \<Rightarrow> Vector2f" where
  "op_sub this rhs = Vector2f_2 (fsub (x this) (x rhs)) (fsub (y this) (y rhs))"

definition op_mul :: "Vector2f \<Rightarrow> float \<Rightarrow> Vector2f" where
  "op_mul this rhs = Vector2f_2 (fmul (x this) rhs) (fmul (y this) rhs)"

definition op_div :: "Vector2f \<Rightarrow> float \<Rightarrow> Vector2f" where
  "op_div this rhs = Vector2f_2 (fdiv (x this) rhs) (fdiv (y this) rhs)"

text \<open>
  A mutating member function takes the receiver and returns the receiver after the
  call. \<open>operator*=\<close> assigns \<open>x\<close>, then \<open>y\<close>; \<open>rhs\<close> is passed by value.
\<close>

definition op_mul_assign :: "Vector2f \<Rightarrow> float \<Rightarrow> Vector2f" where
  "op_mul_assign this rhs =
     (let this1 = this\<lparr>x := fmul (x this) rhs\<rparr>
      in this1\<lparr>y := fmul (y this1) rhs\<rparr>)"

definition op_div_assign :: "Vector2f \<Rightarrow> float \<Rightarrow> Vector2f" where
  "op_div_assign this rhs =
     (let this1 = this\<lparr>x := fdiv (x this) rhs\<rparr>
      in this1\<lparr>y := fdiv (y this1) rhs\<rparr>)"

definition Length :: "Vector2f \<Rightarrow> float" where
  "Length this = Sqrt (fadd (fmul (x this) (x this)) (fmul (y this) (y this)))"

definition LengthSqr :: "Vector2f \<Rightarrow> float" where
  "LengthSqr this = fadd (fmul (x this) (x this)) (fmul (y this) (y this))"

definition Limit :: "Vector2f \<Rightarrow> float \<Rightarrow> Vector2f" where
  "Limit this value =
     (let len = Length this
      in if fgt len value then op_mul_assign this (fdiv value len) else this)"

definition epsilon :: float where
  "epsilon = fliteral False 1 10000000"

definition Normalize :: "Vector2f \<Rightarrow> Vector2f" where
  "Normalize this =
     (let len = Length this
      in if fgt len epsilon then op_mul_assign this (fdiv fone len)
         else this\<lparr>x := fzero, y := fzero\<rparr>)"

definition NormalizeUnsafe :: "Vector2f \<Rightarrow> Vector2f" where
  "NormalizeUnsafe this = op_mul_assign this (fdiv fone (Length this))"

text \<open>
  A \<open>const\<close> member function that returns a vector gives the pair of the receiver
  after the call and the returned value. The local \<open>result\<close> is a copy of the
  receiver, and the mutating function runs on the copy.
\<close>

definition Limited :: "Vector2f \<Rightarrow> float \<Rightarrow> Vector2f \<times> Vector2f" where
  "Limited this value =
     (let result = this;
          result = Limit result value
      in (this, result))"

definition Normalized :: "Vector2f \<Rightarrow> Vector2f \<times> Vector2f" where
  "Normalized this =
     (let result = this;
          result = Normalize result
      in (this, result))"

definition NormalizedUnsafe :: "Vector2f \<Rightarrow> Vector2f \<times> Vector2f" where
  "NormalizedUnsafe this =
     (let result = this;
          result = NormalizeUnsafe result
      in (this, result))"

definition Divide :: "Vector2f \<Rightarrow> Vector2f \<Rightarrow> Vector2f" where
  "Divide a b = Vector2f_2 (fdiv (x a) (x b)) (fdiv (y a) (y b))"

definition Dot :: "Vector2f \<Rightarrow> Vector2f \<Rightarrow> float" where
  "Dot a b = fadd (fmul (x a) (x b)) (fmul (y a) (y b))"

definition Multiply :: "Vector2f \<Rightarrow> Vector2f \<Rightarrow> Vector2f" where
  "Multiply a b = Vector2f_2 (fmul (x a) (x b)) (fmul (y a) (y b))"

definition Reflect :: "Vector2f \<Rightarrow> Vector2f \<Rightarrow> Vector2f" where
  "Reflect vector normal =
     (let dot2 = fmul (fneg (fliteral False 2 1)) (Dot vector normal)
      in op_add (Multiply (Vector2f_1 dot2) normal) vector)"

section \<open>Notions of the specification\<close>

text \<open>
  The sign of a float as a number: negative and positive by its value, infinities
  included; both zeros are zero; NaN is none of the three.
\<close>

fun is_negative :: "float \<Rightarrow> bool" where
  "is_negative NaN = False"
| "is_negative (Infinity s) = s"
| "is_negative (Finite s m e) = (valof (Finite s m e) < 0)"

fun is_positive :: "float \<Rightarrow> bool" where
  "is_positive NaN = False"
| "is_positive (Infinity s) = (\<not> s)"
| "is_positive (Finite s m e) = (0 < valof (Finite s m e))"

fun is_zero :: "float \<Rightarrow> bool" where
  "is_zero (Finite s m e) = (valof (Finite s m e) = 0)"
| "is_zero _ = False"

text \<open>
  Rounding to a multiple as the specification words it: divide by the multiplier,
  apply the one-argument rounding function, multiply by the multiplier.
\<close>

definition spec_to_multiple :: "(float \<Rightarrow> float) \<Rightarrow> float \<Rightarrow> float \<Rightarrow> float" where
  "spec_to_multiple rounding value multiplier =
     (let quotient = fdiv value multiplier;
          rounded = rounding quotient
      in fmul rounded multiplier)"

text \<open>
  \<open>rounds_to z r\<close>: the float \<open>r\<close> is finite and as near to the real number \<open>z\<close> as
  one rounding allows, half a unit in the last place of a normal number (a relative
  error of \<open>2 ^ -24\<close>) or half the least subnormal step, \<open>2 ^ -150\<close>.
\<close>

definition rounds_to :: "real \<Rightarrow> float \<Rightarrow> bool" where
  "rounds_to z r = (is_finite r \<and> \<bar>valof r - z\<bar> \<le> max (\<bar>z\<bar> / 2 ^ 24) (1 / 2 ^ 150))"

text \<open>
  \<open>near k z v\<close>: the non-negative number \<open>v\<close> is \<open>z\<close> up to \<open>k\<close> roundings, that is
  between \<open>z * d ^ k\<close> and \<open>z / d ^ k\<close> for \<open>d = 1 - 2 ^ -24\<close>.
\<close>

definition near :: "nat \<Rightarrow> real \<Rightarrow> real \<Rightarrow> bool" where
  "near k z v = (z * (1 - 1 / 2 ^ 24) ^ k \<le> v \<and> v * (1 - 1 / 2 ^ 24) ^ k \<le> z)"

text \<open>
  \<open>close_to r p\<close>: the float \<open>r\<close> is finite and equals \<open>p\<close> within a relative
  tolerance of \<open>2 ^ -22\<close>, two units in the last place.
\<close>

definition close_to :: "float \<Rightarrow> float \<Rightarrow> bool" where
  "close_to r p = (is_finite r \<and> \<bar>valof r - valof p\<bar> \<le> \<bar>valof p\<bar> / 2 ^ 22)"

text \<open>
  \<open>safe_product p q\<close>: both are finite, \<open>q\<close> is not zero, and \<open>p\<close> is zero or \<open>p\<close> and
  the exact product \<open>p * q\<close> are in the normal range with a binade to spare at the
  top, so that neither the product nor the quotient overflows or underflows.
\<close>

definition safe_product :: "float \<Rightarrow> float \<Rightarrow> bool" where
  "safe_product p q =
     (is_finite p \<and> is_finite q \<and> valof q \<noteq> 0 \<and>
      (valof p = 0 \<or>
       (1 / 2 ^ 126 \<le> \<bar>valof p\<bar> \<and> \<bar>valof p\<bar> \<le> 2 ^ 126 \<and>
        1 / 2 ^ 126 \<le> \<bar>valof p * valof q\<bar> \<and> \<bar>valof p * valof q\<bar> \<le> 2 ^ 126)))"

text \<open>The exact Euclidean length of a vector of finite floats, a real number.\<close>

definition norm2 :: "Vector2f \<Rightarrow> real" where
  "norm2 v = sqrt (valof (x v) * valof (x v) + valof (y v) * valof (y v))"

text \<open>
  Reflection as the specification writes it, \<open>vector - 2 * (vector \<cdot> normal) * normal\<close>:
  the dot product is doubled, each component of the normal is scaled by that, and the
  scaled normal is subtracted from the vector.
\<close>

definition spec_reflect :: "Vector2f \<Rightarrow> Vector2f \<Rightarrow> Vector2f" where
  "spec_reflect vector normal =
     (let twice = fmul (fliteral False 2 1) (Dot vector normal)
      in op_sub vector \<lparr>x = fmul twice (x normal), y = fmul twice (y normal)\<rparr>)"

section \<open>Evaluation on literals\<close>

lemma floorlog2_numeral:
  "floorlog 2 (numeral (num.Bit0 n)) = floorlog 2 (numeral n) + 1"
  "floorlog 2 (numeral (num.Bit1 n)) = floorlog 2 (numeral n) + 1"
  "floorlog 2 (numeral num.One) = 1"
  "floorlog 2 (Suc 0) = 1"
  "floorlog 2 (Suc (Suc 0)) = 2"
  "floorlog 2 0 = 0"
  by (subst compute_floorlog, simp)+

lemma isqrt_numeral:
  "isqrt (numeral k) =
     (if numeral k < (2::nat) then numeral k
      else let r = 2 * isqrt (numeral k div 4)
           in if (r + 1) * (r + 1) \<le> numeral k then r + 1 else r)"
  "isqrt 0 = 0"
  "isqrt (Suc 0) = Suc 0"
  by (subst isqrt.simps, simp)+

lemmas float_eval =
  fround_def pack_def rne_def floorlog2_numeral Let_def fround_quot_def fround_sqrt_def
  fliteral_def fone_def fzero_def isqrt_numeral fint_def fceil_def ffloor_def
  fround_away_def signed_def fsub_def pow2_def rel_of_def
  feq_def fne_def flt_def fgt_def fle_def

section \<open>Scalar functions\<close>

text \<open>
  C4. \<open>Sign\<close> returns \<open>-1\<close> for every negative float (negative infinity included) and
  \<open>+1\<close> for every float that is zero (of either sign) or positive; \<open>Sign(0.0)\<close> is
  \<open>1.0\<close> and \<open>Sign(-0.0001)\<close> is \<open>-1.0\<close>. The results are the same floats, which is
  more than \<open>==\<close>.
\<close>

theorem Sign_cases:
  "(is_negative v \<longrightarrow> Sign v = fneg fone) \<and>
   (is_zero v \<or> is_positive v \<longrightarrow> Sign v = fone) \<and>
   Sign (fliteral False 0 1) = fliteral False 1 1 \<and>
   Sign (fneg (fliteral False 1 10000)) = fneg (fliteral False 1 1)"
proof -
  have lit: "fliteral False 0 1 = fzero" "fliteral False 1 1 = fone"
    "fliteral False 1 10000 = Finite False 13743895 (- 37)"
    by (simp_all add: float_eval)
  have neg: "is_negative v \<Longrightarrow> Sign v = fneg fone"
    by (cases v) (auto simp: Sign_def flt_def fzero_def rel_of_def)
  have pos: "is_zero v \<or> is_positive v \<Longrightarrow> Sign v = fone"
    by (cases v) (auto simp: Sign_def flt_def fzero_def rel_of_def)
  have "Sign fzero = fone"
    by (simp add: Sign_def flt_def fzero_def rel_of_def)
  moreover have "Sign (Finite True 13743895 (- 37)) = fneg fone"
    by (simp add: Sign_def flt_def fzero_def rel_of_def pow2_def)
  ultimately show ?thesis unfolding lit using neg pos by simp
qed

theorem Sign_cases_witness:
  "is_negative (Infinity True) \<and> Sign (Infinity True) = fneg fone \<and>
   is_zero (Finite True 0 (- 149)) \<and> Sign (Finite True 0 (- 149)) = fone \<and>
   is_positive (Finite False 1 (- 149)) \<and> Sign (Finite False 1 (- 149)) = fone"
  using Sign_cases [of "Infinity True"] Sign_cases [of "Finite True 0 (- 149)"]
    Sign_cases [of "Finite False 1 (- 149)"]
  by (simp add: pow2_def)

text \<open>
  C5. The two-argument \<open>Ceiling\<close>, \<open>Floor\<close> and \<open>Round\<close> are, for every value and
  multiplier, the quotient by the multiplier, rounded by the one-argument function,
  times the multiplier; \<open>Floor(7, 5)\<close> is \<open>5\<close> and \<open>Ceiling(7, 5)\<close> is \<open>10\<close>.
\<close>

theorem rounding_to_multiple:
  "Ceiling2 v m = spec_to_multiple Ceiling v m \<and>
   Floor2 v m = spec_to_multiple Floor v m \<and>
   Round2 v m = spec_to_multiple Round v m \<and>
   Floor2 (fliteral False 7 1) (fliteral False 5 1) = fliteral False 5 1 \<and>
   Ceiling2 (fliteral False 7 1) (fliteral False 5 1) = fliteral False 10 1"
proof -
  have general: "Ceiling2 v m = spec_to_multiple Ceiling v m"
    "Floor2 v m = spec_to_multiple Floor v m"
    "Round2 v m = spec_to_multiple Round v m"
    by (simp_all add: Ceiling2_def Floor2_def Round2_def spec_to_multiple_def)
  have seven: "fliteral False 7 1 = Finite False 14680064 (- 21)"
    and five: "fliteral False 5 1 = Finite False 10485760 (- 21)"
    and ten: "fliteral False 10 1 = Finite False 10485760 (- 20)"
    by (simp_all add: float_eval)
  have quot: "fdiv (Finite False 14680064 (- 21)) (Finite False 10485760 (- 21)) =
      Finite False 11744051 (- 23)"
    by (simp add: float_eval)
  have down: "ffloor (Finite False 11744051 (- 23)) = Finite False 8388608 (- 23)"
    and up: "fceil (Finite False 11744051 (- 23)) = Finite False 8388608 (- 22)"
    by (simp_all add: float_eval)
  have "fmul (Finite False 8388608 (- 23)) (Finite False 10485760 (- 21)) =
      Finite False 10485760 (- 21)"
    and "fmul (Finite False 8388608 (- 22)) (Finite False 10485760 (- 21)) =
      Finite False 10485760 (- 20)"
    by (simp_all add: float_eval)
  with general seven five ten quot down up show ?thesis
    by (simp add: Floor2_def Ceiling2_def Floor_def Ceiling_def)
qed

section \<open>Construction, comparison and copies\<close>

text \<open>
  C9. The constructor without arguments gives the vector with both components \<open>+0\<close>,
  which is \<open>Vector2f::Zero\<close>; the constructor of one scalar gives that scalar in both
  components; the constructor of two scalars gives exactly those components.
\<close>

theorem constructors:
  "x Vector2f_0 = Finite False 0 (- 149) \<and> y Vector2f_0 = Finite False 0 (- 149) \<and>
   Vector2f_0 = Zero \<and>
   x (Vector2f_1 v) = v \<and> y (Vector2f_1 v) = v \<and>
   x (Vector2f_2 a b) = a \<and> y (Vector2f_2 a b) = b"
  by (simp add: Vector2f_0_def Vector2f_1_def Vector2f_2_def Zero_def fzero_def)

text \<open>
  C10. For all vectors, with NaN components too, \<open>operator!=\<close> is the negation of
  \<open>operator==\<close>; a vector with a NaN component is unequal to itself by both.
\<close>

theorem op_ne_negates_op_eq:
  "op_ne a b = (\<not> op_eq a b) \<and>
   op_ne \<lparr>x = NaN, y = fzero\<rparr> \<lparr>x = NaN, y = fzero\<rparr> \<and>
   \<not> op_eq \<lparr>x = NaN, y = fzero\<rparr> \<lparr>x = NaN, y = fzero\<rparr>"
proof -
  have "op_ne a b = (\<not> op_eq a b)"
    by (cases "fcompare (x a) (x b)"; cases "fcompare (y a) (y b)";
        simp add: op_ne_def op_eq_def fne_def feq_def)
  then show ?thesis
    by (simp add: op_ne_def op_eq_def fne_def feq_def)
qed

text \<open>
  C8. \<open>Limited\<close>, \<open>Normalized\<close> and \<open>NormalizedUnsafe\<close> return what \<open>Limit\<close>,
  \<open>Normalize\<close> and \<open>NormalizeUnsafe\<close> make of a copy of the receiver, and the receiver
  after the call is the receiver before it.
\<close>

theorem copies_run_the_mutating_operation:
  "Limited v s = (v, Limit v s) \<and>
   Normalized v = (v, Normalize v) \<and>
   NormalizedUnsafe v = (v, NormalizeUnsafe v)"
  by (simp add: Limited_def Normalized_def NormalizedUnsafe_def)

section \<open>Reflection\<close>

text \<open>
  Negating a factor negates the product, and addition commutes: both hold for the
  rounded operations, infinities, zeros and NaN included.
\<close>

lemma pack_fneg: "pack (\<not> s) m e = fneg (pack s m e)"
  by (simp add: pack_def)

lemma fround_fneg: "fround (\<not> s) M E = fneg (fround s M E)"
  unfolding fround_def Let_def by (simp only: pack_fneg if_distrib [of fneg] fneg.simps)

lemma fmul_fneg_left: "fmul (fneg a) b = fneg (fmul a b)"
  by (cases a; cases b) (simp_all add: fround_fneg [symmetric])

lemma fadd_commute: "fadd a b = fadd b a"
proof (cases a; cases b)
  fix s m e t n f
  assume ab: "a = Finite s m e" "b = Finite t n f"
  have "min e f = min f e" by (rule min.commute)
  moreover have "(s \<and> t) = (t \<and> s)" by blast
  ultimately show ?thesis
    unfolding ab fadd.simps Let_def by (simp only: add.commute)
qed auto

text \<open>
  C6. For all vectors, \<open>Reflect(vector, normal)\<close> is the same vector of floats as
  \<open>vector - 2 * (vector \<cdot> normal) * normal\<close>, and it is computed as the componentwise
  product of \<open>(-2 * Dot, -2 * Dot)\<close> with the normal, plus the vector;
  \<open>Reflect((1, -1), (0, 1))\<close> is \<open>(1, 1)\<close>.
\<close>

theorem Reflect_is_spec_reflect:
  "Reflect v n = spec_reflect v n \<and>
   Reflect v n =
     op_add (Multiply (Vector2f_1 (fmul (fneg (fliteral False 2 1)) (Dot v n))) n) v \<and>
   Reflect \<lparr>x = fliteral False 1 1, y = fneg (fliteral False 1 1)\<rparr>
     \<lparr>x = fliteral False 0 1, y = fliteral False 1 1\<rparr> =
     \<lparr>x = fliteral False 1 1, y = fliteral False 1 1\<rparr>"
proof -
  have comp: "fadd (fmul (fmul (fneg c) d) p) q = fsub q (fmul (fmul c d) p)" for c d p q
    by (simp add: fmul_fneg_left fsub_def fadd_commute)
  have first: "Reflect v n = spec_reflect v n"
    unfolding Reflect_def spec_reflect_def Let_def op_add_def op_sub_def Multiply_def
      Vector2f_1_def Vector2f_2_def
    by (simp only: comp Vector2f.simps)
  have second: "Reflect v n =
      op_add (Multiply (Vector2f_1 (fmul (fneg (fliteral False 2 1)) (Dot v n))) n) v"
    unfolding Reflect_def Let_def by (rule refl)
  have lit: "fliteral False 1 1 = Finite False 8388608 (- 23)"
    "fliteral False 0 1 = Finite False 0 (- 149)"
    "fliteral False 2 1 = Finite False 8388608 (- 22)"
    by (simp_all add: float_eval)
  have "Dot \<lparr>x = Finite False 8388608 (- 23), y = Finite True 8388608 (- 23)\<rparr>
      \<lparr>x = Finite False 0 (- 149), y = Finite False 8388608 (- 23)\<rparr> =
      Finite True 8388608 (- 23)"
    by (simp add: Dot_def float_eval)
  then have third: "Reflect \<lparr>x = Finite False 8388608 (- 23), y = Finite True 8388608 (- 23)\<rparr>
      \<lparr>x = Finite False 0 (- 149), y = Finite False 8388608 (- 23)\<rparr> =
      \<lparr>x = Finite False 8388608 (- 23), y = Finite False 8388608 (- 23)\<rparr>"
    unfolding Reflect_def Let_def lit
    by (simp add: op_add_def Multiply_def Vector2f_1_def Vector2f_2_def float_eval)
  show ?thesis
    using first second third unfolding lit by simp
qed

section \<open>Normalisation without a guard\<close>

text \<open>
  C3, as stated, fails: \<open>NormalizeUnsafe\<close> does not divide by the length, it multiplies
  by the rounded reciprocal \<open>1.f / Length()\<close>. On \<open>(41, 0)\<close> the length is \<open>41\<close>, the
  reciprocal rounds to \<open>13094412 * 2 ^ -29\<close>, and the first component becomes
  \<open>16777215 * 2 ^ -24\<close>, the float below \<open>1\<close>, where the division \<open>41 / 41\<close> gives \<open>1\<close>.
\<close>

theorem NormalizeUnsafe_is_not_division:
  "NormalizeUnsafe \<lparr>x = fliteral False 41 1, y = fliteral False 0 1\<rparr> =
     \<lparr>x = Finite False 16777215 (- 24), y = Finite False 0 (- 149)\<rparr> \<and>
   op_div_assign \<lparr>x = fliteral False 41 1, y = fliteral False 0 1\<rparr>
     (Length \<lparr>x = fliteral False 41 1, y = fliteral False 0 1\<rparr>) =
     \<lparr>x = Finite False 8388608 (- 23), y = Finite False 0 (- 149)\<rparr> \<and>
   NormalizeUnsafe \<lparr>x = fliteral False 41 1, y = fliteral False 0 1\<rparr> \<noteq>
   op_div_assign \<lparr>x = fliteral False 41 1, y = fliteral False 0 1\<rparr>
     (Length \<lparr>x = fliteral False 41 1, y = fliteral False 0 1\<rparr>)"
proof -
  have lit: "fliteral False 41 1 = Finite False 10747904 (- 18)"
    "fliteral False 0 1 = Finite False 0 (- 149)"
    by (simp_all add: float_eval)
  have len: "Length \<lparr>x = Finite False 10747904 (- 18), y = Finite False 0 (- 149)\<rparr> =
      Finite False 10747904 (- 18)"
    by (simp add: Length_def Sqrt_def float_eval)
  have recip: "fdiv fone (Finite False 10747904 (- 18)) = Finite False 13094412 (- 29)"
    by (simp add: float_eval)
  have "fmul (Finite False 10747904 (- 18)) (Finite False 13094412 (- 29)) =
      Finite False 16777215 (- 24)"
    "fmul (Finite False 0 (- 149)) (Finite False 13094412 (- 29)) = Finite False 0 (- 149)"
    "fdiv (Finite False 10747904 (- 18)) (Finite False 10747904 (- 18)) =
      Finite False 8388608 (- 23)"
    "fdiv (Finite False 0 (- 149)) (Finite False 10747904 (- 18)) = Finite False 0 (- 149)"
    by (simp_all add: float_eval)
  then show ?thesis
    unfolding lit
    by (simp add: NormalizeUnsafe_def op_mul_assign_def op_div_assign_def len recip Let_def)
qed

text \<open>
  C3, amended. For every vector, \<open>NormalizeUnsafe\<close> multiplies both components by
  \<open>1.f / Length()\<close>, whatever the length is; on the vector \<open>(0, 0)\<close> both components
  of the result are NaN.
\<close>

theorem NormalizeUnsafe_scales_by_reciprocal:
  "NormalizeUnsafe v =
     \<lparr>x = fmul (x v) (fdiv fone (Length v)), y = fmul (y v) (fdiv fone (Length v))\<rparr> \<and>
   NormalizeUnsafe Zero = \<lparr>x = NaN, y = NaN\<rparr>"
proof -
  have "Length Zero = Finite False 0 (- 149)"
    by (simp add: Length_def Sqrt_def Zero_def Vector2f_1_def float_eval)
  then have "NormalizeUnsafe Zero = \<lparr>x = NaN, y = NaN\<rparr>"
    by (simp add: NormalizeUnsafe_def op_mul_assign_def Let_def Zero_def Vector2f_1_def
        fzero_def fone_def)
  then show ?thesis
    by (simp add: NormalizeUnsafe_def op_mul_assign_def Let_def)
qed

section \<open>Rounding error of the arithmetic\<close>

text \<open>Powers of two with an integer exponent.\<close>

lemma pow2_powr: "pow2 e = 2 powr real_of_int e"
proof (cases "0 \<le> e")
  case True
  then show ?thesis
    by (simp add: pow2_def powr_realpow [symmetric])
next
  case False
  then have "real_of_int e = - real (nat (- e))" by simp
  then show ?thesis
    using False by (simp add: pow2_def powr_minus powr_realpow [symmetric] field_simps del: of_nat_nat)
qed

lemma pow2_pos [simp]: "0 < pow2 e"
  by (simp add: pow2_powr)

lemma pow2_nonzero [simp]: "pow2 e \<noteq> 0"
  by (simp add: pow2_powr)

lemma pow2_abs [simp]: "\<bar>pow2 e\<bar> = pow2 e"
  by (simp add: pow2_powr)

lemma pow2_add: "pow2 (a + b) = pow2 a * pow2 b"
  by (simp add: pow2_powr powr_add)

lemma pow2_nat: "pow2 (int n) = 2 ^ n"
  by (simp add: pow2_def)

lemma pow2_neg_nat: "pow2 (- int n) = 1 / 2 ^ n"
  by (simp add: pow2_powr powr_minus powr_realpow divide_inverse)

lemma pow2_diff: "pow2 (a - b) = pow2 a / pow2 b"
  by (simp add: pow2_powr powr_diff)

lemma pow2_numeral:
  "pow2 (numeral n) = 2 ^ numeral n"
  "pow2 (- numeral n) = 1 / 2 ^ numeral n"
  "pow2 0 = 1"
  "pow2 1 = 2"
  by (simp_all add: pow2_def)

lemmas pow2_simps = pow2_add pow2_diff pow2_nat pow2_numeral

lemma pow2_mono: "a \<le> b \<Longrightarrow> pow2 a \<le> pow2 b"
  by (simp add: pow2_powr)

lemma pow2_less_iff: "pow2 a < pow2 b \<longleftrightarrow> a < b"
  by (simp add: pow2_powr)

lemma rne_error: "2 * \<bar>int (rne M k) * 2 ^ k - int M\<bar> \<le> 2 ^ k"
proof -
  define q where "q = M div 2 ^ k"
  define r where "r = M mod 2 ^ k"
  have "M = q * 2 ^ k + r"
    unfolding q_def r_def by (rule div_mult_mod_eq [symmetric])
  then have M: "int M = int q * 2 ^ k + int r"
    by (metis of_nat_add of_nat_mult of_nat_numeral of_nat_power)
  have "r < 2 ^ k"
    by (simp add: r_def)
  then have r: "int r < 2 ^ k"
    by (metis of_nat_less_iff of_nat_numeral of_nat_power)
  show ?thesis
  proof (cases "2 ^ k < 2 * r \<or> (2 * r = 2 ^ k \<and> odd q)")
    case True
    then have up: "rne M k = q + 1"
      by (simp add: rne_def Let_def q_def r_def)
    from True have "(2::nat) ^ k \<le> 2 * r" by auto
    then have "(2::int) ^ k \<le> 2 * int r"
      by (metis of_nat_le_iff of_nat_mult of_nat_numeral of_nat_power)
    with r show ?thesis
      unfolding up M by (simp add: algebra_simps)
  next
    case False
    then have down: "rne M k = q"
      by (simp add: rne_def Let_def q_def r_def)
    from False have "2 * r \<le> (2::nat) ^ k" by auto
    then have "2 * int r \<le> (2::int) ^ k"
      by (metis of_nat_le_iff of_nat_mult of_nat_numeral of_nat_power)
    then show ?thesis
      unfolding down M by (simp add: algebra_simps)
  qed
qed

lemma rne_parity: "0 < k \<Longrightarrow> even (int (rne M k) * 2 ^ k)"
  by simp

text \<open>
  The core of the error analysis. \<open>fround s M E\<close> packs a magnitude of at most 24
  bits with an exponent of at least \<open>-149\<close>, normalised unless the exponent is the
  least one, and that value differs from the exact one by at most half a unit in the
  last place. The exact value is \<open>X * 2 ^ E\<close>, where \<open>X\<close> is \<open>M\<close> itself or, when the
  last bit of \<open>M\<close> is a sticky bit, any real number less than one away from \<open>M\<close>. The
  exponent does not overflow when the exact value is below \<open>2 ^ 127\<close>.
\<close>

lemma rne_bounds: "M div 2 ^ k \<le> rne M k \<and> rne M k \<le> M div 2 ^ k + 1"
  by (simp add: rne_def Let_def)

lemma fround_shape:
  fixes X :: real
  assumes M: "0 < M"
    and X: "X = real M \<or> (odd M \<and> \<bar>X - real M\<bar> < 1 \<and> 2 ^ 26 \<le> M)"
  shows "\<exists>m e. fround s M E = pack s m e \<and>
           m < 2 ^ 24 \<and> - 149 \<le> e \<and> (e = - 149 \<or> 2 ^ 23 \<le> m) \<and>
           (X * pow2 E < 2 ^ 127 \<longrightarrow> e \<le> 104) \<and>
           \<bar>real m * pow2 e - X * pow2 E\<bar> \<le> max (X * pow2 E / 2 ^ 24) (1 / 2 ^ 150)"
proof -
  define bl where "bl = floorlog 2 M"
  define e0 where "e0 = max (E + int bl - 24) (- 149)"
  have "bl \<noteq> 0"
    using M by (simp add: bl_def floorlog_eq_zero_iff)
  then obtain b1 where bl: "bl = Suc b1"
    by (cases bl) auto
  have bl_lo: "2 ^ b1 \<le> M" and bl_hi: "M < 2 ^ bl"
    using floorlog_bounds [of M 2] M by (simp_all add: bl_def [symmetric] bl)
  have big: "27 \<le> bl" if "2 ^ 26 \<le> M"
  proof (rule ccontr)
    assume "\<not> 27 \<le> bl"
    then have "bl \<le> 26" by simp
    then have "(2::nat) ^ bl \<le> 2 ^ 26"
      by (rule power_increasing) simp
    with bl_hi that show False by simp
  qed
  have X_lo: "2 ^ b1 \<le> X"
  proof -
    from X show ?thesis
    proof
      assume "X = real M"
      then show ?thesis using bl_lo
        by (metis of_nat_le_iff of_nat_numeral of_nat_power)
    next
      assume odd: "odd M \<and> \<bar>X - real M\<bar> < 1 \<and> 2 ^ 26 \<le> M"
      then have "27 \<le> bl" using big by simp
      then have "0 < b1" using bl by simp
      then have "even ((2::nat) ^ b1)" by simp
      with odd have "M \<noteq> 2 ^ b1" by metis
      with bl_lo have "2 ^ b1 + 1 \<le> M" by simp
      then have "real (2 ^ b1 + 1) \<le> real M"
        by (rule iffD2 [OF of_nat_le_iff])
      then have "2 ^ b1 + 1 \<le> real M" by simp
      with odd show ?thesis by linarith
    qed
  qed
  have e0_lo: "- 149 \<le> e0"
    by (simp add: e0_def)
  have e0_hi: "e0 \<le> 103" if fin: "X * pow2 E < 2 ^ 127"
  proof -
    have "2 ^ b1 * pow2 E \<le> X * pow2 E"
      using X_lo by (simp add: mult_right_mono)
    moreover have "pow2 (int b1 + E) = 2 ^ b1 * pow2 E"
      by (simp add: pow2_add pow2_nat)
    moreover have "pow2 127 = 2 ^ 127"
      by (simp add: pow2_simps)
    ultimately have "pow2 (int b1 + E) < pow2 127"
      using fin by linarith
    then have "int b1 + E < 127"
      by (simp add: pow2_less_iff)
    then show ?thesis
      by (simp add: e0_def bl)
  qed
  have unfold: "fround s M E =
      (if e0 \<le> E then pack s (M * 2 ^ nat (E - e0)) e0
       else if rne M (nat (e0 - E)) = 2 ^ 24 then pack s (2 ^ 23) (e0 + 1)
       else pack s (rne M (nat (e0 - E))) e0)"
    using M unfolding fround_def Let_def e0_def bl_def by simp
  show ?thesis
  proof (cases "e0 \<le> E")
    case True
    define j where "j = nat (E - e0)"
    have j: "int j = E - e0"
      using True by (simp add: j_def)
    have XM: "X = real M"
    proof (rule ccontr)
      assume "X \<noteq> real M"
      with X have "2 ^ 26 \<le> M" by simp
      then have "27 \<le> bl" by (rule big)
      then have "E < e0" by (simp add: e0_def)
      with True show False by simp
    qed
    have fr: "fround s M E = pack s (M * 2 ^ j) e0"
      using True by (simp add: unfold j_def)
    have "E + int bl - 24 \<le> e0"
      by (simp add: e0_def)
    then have "bl + j \<le> 24"
      using j by linarith
    then have "(2::nat) ^ (bl + j) \<le> 2 ^ 24"
      by (intro power_increasing) simp_all
    then have "(2::nat) ^ bl * 2 ^ j \<le> 2 ^ 24"
      by (simp only: power_add)
    moreover have "M * 2 ^ j < 2 ^ bl * 2 ^ j"
      using bl_hi by simp
    ultimately have small: "M * 2 ^ j < 2 ^ 24"
      by (rule less_le_trans [rotated])
    have norm: "e0 = - 149 \<or> 2 ^ 23 \<le> M * 2 ^ j"
    proof (cases "e0 = - 149")
      case True
      then show ?thesis by simp
    next
      case False
      then have "e0 = E + int bl - 24"
        by (simp add: e0_def)
      then have "b1 + j = 23"
        using j bl by linarith
      then have "(2::nat) ^ 23 = 2 ^ b1 * 2 ^ j"
        by (simp add: power_add [symmetric])
      also have "\<dots> \<le> M * 2 ^ j"
        using bl_lo by simp
      finally show ?thesis by simp
    qed
    have "pow2 E = pow2 (int j + e0)"
      using j by simp
    also have "\<dots> = 2 ^ j * pow2 e0"
      by (simp only: pow2_add pow2_nat)
    finally have "real (M * 2 ^ j) * pow2 e0 = X * pow2 E"
      by (simp add: XM)
    moreover have "0 \<le> max (X * pow2 E / 2 ^ 24) (1 / 2 ^ 150)"
      by simp
    ultimately have "\<bar>real (M * 2 ^ j) * pow2 e0 - X * pow2 E\<bar>
        \<le> max (X * pow2 E / 2 ^ 24) (1 / 2 ^ 150)"
      by simp
    then show ?thesis
      using fr small norm e0_lo e0_hi
      by (intro exI [of _ "M * 2 ^ j"] exI [of _ e0]) auto
  next
    case False
    define k where "k = nat (e0 - E)"
    define m' where "m' = rne M k"
    have k: "0 < k" "e0 = E + int k"
      using False by (simp_all add: k_def)
    have err: "2 * \<bar>int m' * 2 ^ k - int M\<bar> \<le> 2 ^ k"
      unfolding m'_def by (rule rne_error)
    obtain k1 where k1: "k = Suc k1"
      using k by (cases k) auto
    have errX: "\<bar>real m' * 2 ^ k - X\<bar> \<le> 2 ^ k1"
    proof -
      from X show ?thesis
      proof
        assume XM: "X = real M"
        from err have "\<bar>int m' * 2 ^ k - int M\<bar> \<le> 2 ^ k1"
          by (simp add: k1)
        then have "real_of_int \<bar>int m' * 2 ^ k - int M\<bar> \<le> real_of_int (2 ^ k1)"
          by (rule iffD2 [OF of_int_le_iff])
        then show ?thesis
          by (simp add: XM)
      next
        assume odd: "odd M \<and> \<bar>X - real M\<bar> < 1 \<and> 2 ^ 26 \<le> M"
        then have "27 \<le> bl" using big by simp
        then have "3 \<le> e0 - E" by (simp add: e0_def)
        then have "0 < k1" using k k1 by simp
        then have ev: "even ((2::int) ^ k1)" by simp
        have "odd (int m' * 2 ^ k - int M)"
          using odd k by simp
        then have od: "odd \<bar>int m' * 2 ^ k - int M\<bar>"
          by simp
        from err have "\<bar>int m' * 2 ^ k - int M\<bar> \<le> 2 ^ k1"
          by (simp add: k1)
        moreover from ev od have "\<bar>int m' * 2 ^ k - int M\<bar> \<noteq> 2 ^ k1"
          by metis
        ultimately have "\<bar>int m' * 2 ^ k - int M\<bar> + 1 \<le> 2 ^ k1"
          by simp
        then have "real_of_int (\<bar>int m' * 2 ^ k - int M\<bar> + 1) \<le> real_of_int (2 ^ k1)"
          by (rule iffD2 [OF of_int_le_iff])
        then have "\<bar>real m' * 2 ^ k - real M\<bar> + 1 \<le> 2 ^ k1"
          by simp
        with odd show ?thesis by linarith
      qed
    qed
    have scale: "pow2 e0 = 2 ^ k * pow2 E"
      by (simp add: k pow2_add pow2_nat)
    have "real m' * pow2 e0 - X * pow2 E = (real m' * 2 ^ k - X) * pow2 E"
      by (simp add: scale algebra_simps)
    then have "\<bar>real m' * pow2 e0 - X * pow2 E\<bar> = \<bar>real m' * 2 ^ k - X\<bar> * pow2 E"
      by (simp add: abs_mult)
    also have "\<dots> \<le> 2 ^ k1 * pow2 E"
      using errX by (simp add: mult_right_mono)
    also have "\<dots> = pow2 e0 / 2"
      by (simp add: scale k1)
    finally have close: "\<bar>real m' * pow2 e0 - X * pow2 E\<bar> \<le> pow2 e0 / 2" .
    have bound: "pow2 e0 / 2 \<le> max (X * pow2 E / 2 ^ 24) (1 / 2 ^ 150)"
    proof (cases "e0 = - 149")
      case True
      then show ?thesis by (simp add: pow2_simps)
    next
      case False
      then have "e0 = int b1 + E + (- 23)"
        by (simp add: e0_def bl)
      then have "pow2 e0 / 2 = 2 ^ b1 * pow2 E / 2 ^ 24"
        by (simp add: pow2_simps)
      also have "\<dots> \<le> X * pow2 E / 2 ^ 24"
        using X_lo by (simp add: mult_right_mono divide_right_mono)
      finally show ?thesis by simp
    qed
    have "E + int bl - 24 \<le> e0"
      by (simp add: e0_def)
    then have "bl \<le> 24 + k"
      using k by linarith
    then have "(2::nat) ^ bl \<le> 2 ^ (24 + k)"
      by (intro power_increasing) simp_all
    with bl_hi have "M < 2 ^ 24 * 2 ^ k"
      by (simp add: power_add)
    then have "M div 2 ^ k < 2 ^ 24"
      by (rule less_mult_imp_div_less)
    then have m_hi: "m' \<le> 2 ^ 24"
      using rne_bounds [of M k] by (simp add: m'_def)
    have m_lo: "2 ^ 23 \<le> m'" if "e0 \<noteq> - 149"
    proof -
      from that have "e0 = E + int bl - 24"
        by (simp add: e0_def)
      then have "b1 = 23 + k"
        using k bl by linarith
      then have "2 ^ 23 * 2 ^ k \<le> M"
        using bl_lo by (simp add: power_add)
      then have "(2 ^ 23 * 2 ^ k) div 2 ^ k \<le> M div 2 ^ k"
        by (rule div_le_mono)
      then have "2 ^ 23 \<le> M div 2 ^ k"
        by simp
      then show ?thesis
        using rne_bounds [of M k] by (simp add: m'_def)
    qed
    show ?thesis
    proof (cases "m' = 2 ^ 24")
      case True
      have "fround s M E = pack s (2 ^ 23) (e0 + 1)"
        using \<open>\<not> e0 \<le> E\<close> True by (simp add: unfold m'_def k_def)
      moreover have "real (2 ^ 23) * pow2 (e0 + 1) = real m' * pow2 e0"
        by (simp add: True pow2_simps)
      ultimately show ?thesis
        using close bound e0_lo e0_hi
        by (intro exI [of _ "2 ^ 23"] exI [of _ "e0 + 1"]) auto
    next
      case False
      have "fround s M E = pack s m' e0"
        using \<open>\<not> e0 \<le> E\<close> False by (simp add: unfold m'_def k_def)
      moreover have "m' < 2 ^ 24"
        using m_hi False by simp
      ultimately show ?thesis
        using close bound e0_lo e0_hi m_lo
        by (intro exI [of _ m'] exI [of _ e0]) auto
    qed
  qed
qed

text \<open>
  So the result is finite whenever the exact value is below \<open>2 ^ 127\<close>, and every
  result is a binary32 value.
\<close>

lemma fround_close:
  fixes X :: real
  assumes M: "0 < M"
    and X: "X = real M \<or> (odd M \<and> \<bar>X - real M\<bar> < 1 \<and> 2 ^ 26 \<le> M)"
    and fin: "X * pow2 E < 2 ^ 127"
  shows "\<exists>m e. fround s M E = Finite s m e \<and>
           \<bar>real m * pow2 e - X * pow2 E\<bar> \<le> max (X * pow2 E / 2 ^ 24) (1 / 2 ^ 150)"
proof -
  obtain m e where "fround s M E = pack s m e" "e \<le> 104"
    "\<bar>real m * pow2 e - X * pow2 E\<bar> \<le> max (X * pow2 E / 2 ^ 24) (1 / 2 ^ 150)"
    using fround_shape [OF M X, of s E] fin by blast
  then show ?thesis
    by (auto simp: pack_def)
qed

lemma fround_valid: "is_binary32 (fround s M E)"
proof (cases "M = 0")
  case True
  then show ?thesis by (simp add: fround_def)
next
  case False
  then have "0 < M" by simp
  then obtain m e where "fround s M E = pack s m e" "m < 2 ^ 24" "- 149 \<le> e"
    "e = - 149 \<or> 2 ^ 23 \<le> m"
    using fround_shape [of M "real M" s E] by blast
  then show ?thesis
    by (auto simp: pack_def)
qed

text \<open>
  Each operation on finite floats is finite and rounds the exact result, provided
  the exact result is below \<open>2 ^ 127\<close> in magnitude.
\<close>

lemma valof_Finite: "valof (Finite s m e) = (if s then - 1 else 1) * (real m * pow2 e)"
  by simp

lemma fround_rounds:
  fixes X :: real
  assumes "0 < M"
    and "X = real M \<or> (odd M \<and> \<bar>X - real M\<bar> < 1 \<and> 2 ^ 26 \<le> M)"
    and "X * pow2 E < 2 ^ 127"
    and "0 \<le> X"
  shows "rounds_to ((if s then - 1 else 1) * (X * pow2 E)) (fround s M E)"
proof -
  obtain m e where r: "fround s M E = Finite s m e"
    and c: "\<bar>real m * pow2 e - X * pow2 E\<bar> \<le> max (X * pow2 E / 2 ^ 24) (1 / 2 ^ 150)"
    using fround_close [OF assms(1-3)] by blast
  have absz: "\<bar>(if s then - 1 else 1) * (X * pow2 E)\<bar> = X * pow2 E"
    using assms(4) by (simp add: abs_mult)
  have eq: "\<bar>valof (Finite s m e) - (if s then - 1 else 1) * (X * pow2 E)\<bar> =
      \<bar>real m * pow2 e - X * pow2 E\<bar>"
    by (cases s) (simp_all add: abs_minus_commute)
  show ?thesis
    unfolding rounds_to_def r absz eq using c by simp
qed

lemma rounds_to_zero: "rounds_to 0 (Finite s 0 e)"
  by (simp add: rounds_to_def)

lemma fmul_rounds:
  assumes "is_finite a" "is_finite b" "\<bar>valof a * valof b\<bar> < 2 ^ 127"
  shows "rounds_to (valof a * valof b) (fmul a b)"
proof -
  obtain s m e where a: "a = Finite s m e" using assms(1) by (cases a) auto
  obtain t n f where b: "b = Finite t n f" using assms(2) by (cases b) auto
  show ?thesis
  proof (cases "m * n = 0")
    case True
    then have "valof a * valof b = 0" by (auto simp: a b)
    moreover have "fmul a b = Finite (s \<noteq> t) 0 (- 149)"
      using True by (simp add: a b fround_def)
    ultimately show ?thesis by (simp only: rounds_to_zero)
  next
    case False
    have z: "valof a * valof b =
        (if s \<noteq> t then - 1 else 1) * (real (m * n) * pow2 (e + f))"
      by (simp add: a b pow2_add)
    have "real (m * n) * pow2 (e + f) = \<bar>valof a * valof b\<bar>"
      unfolding z by (simp add: abs_mult)
    then have "real (m * n) * pow2 (e + f) < 2 ^ 127"
      using assms(3) by simp
    then have "rounds_to ((if s \<noteq> t then - 1 else 1) * (real (m * n) * pow2 (e + f)))
        (fround (s \<noteq> t) (m * n) (e + f))"
      using False by (intro fround_rounds) simp_all
    then show ?thesis
      unfolding z by (simp add: a b)
  qed
qed

lemma fadd_rounds:
  assumes "is_finite a" "is_finite b" "\<bar>valof a + valof b\<bar> < 2 ^ 127"
  shows "rounds_to (valof a + valof b) (fadd a b)"
proof -
  obtain s m e where a: "a = Finite s m e" using assms(1) by (cases a) auto
  obtain t n f where b: "b = Finite t n f" using assms(2) by (cases b) auto
  define E where "E = min e f"
  define T where "T = signed s m * 2 ^ nat (e - E) + signed t n * 2 ^ nat (f - E)"
  have pe: "pow2 e = 2 ^ nat (e - E) * pow2 E"
  proof -
    have "pow2 e = pow2 (int (nat (e - E)) + E)" by (simp add: E_def)
    then show ?thesis by (simp only: pow2_add pow2_nat)
  qed
  have pf: "pow2 f = 2 ^ nat (f - E) * pow2 E"
  proof -
    have "pow2 f = pow2 (int (nat (f - E)) + E)" by (simp add: E_def)
    then show ?thesis by (simp only: pow2_add pow2_nat)
  qed
  have va: "valof a = real_of_int (signed s m) * pow2 e"
    by (simp add: a signed_def)
  have vb: "valof b = real_of_int (signed t n) * pow2 f"
    by (simp add: b signed_def)
  have z: "valof a + valof b = real_of_int T * pow2 E"
    unfolding va vb T_def by (simp add: pe pf algebra_simps)
  have r: "fadd a b = (if T = 0 then Finite (s \<and> t) 0 (- 149) else fround (T < 0) (nat \<bar>T\<bar>) E)"
    unfolding a b fadd.simps Let_def E_def T_def by (rule refl)
  show ?thesis
  proof (cases "T = 0")
    case True
    then have "fadd a b = Finite (s \<and> t) 0 (- 149)" "valof a + valof b = 0"
      by (simp_all add: r z)
    then show ?thesis by (simp only: rounds_to_zero)
  next
    case False
    have T: "real_of_int T = (if T < 0 then - 1 else 1) * real (nat \<bar>T\<bar>)"
      by simp
    have "real (nat \<bar>T\<bar>) * pow2 E = \<bar>valof a + valof b\<bar>"
      unfolding z by (simp add: abs_mult)
    then have "real (nat \<bar>T\<bar>) * pow2 E < 2 ^ 127"
      using assms(3) by simp
    then have "rounds_to ((if T < 0 then - 1 else 1) * (real (nat \<bar>T\<bar>) * pow2 E))
        (fround (T < 0) (nat \<bar>T\<bar>) E)"
      using False by (intro fround_rounds) simp_all
    moreover have "valof a + valof b = (if T < 0 then - 1 else 1) * (real (nat \<bar>T\<bar>) * pow2 E)"
      unfolding z by (subst T) simp
    ultimately show ?thesis
      using False by (simp add: r)
  qed
qed

lemma fround_quot_rounds:
  assumes m: "0 < m" and n: "0 < n"
    and fin: "real m / real n * pow2 E < 2 ^ 127"
  shows "rounds_to ((if s then - 1 else 1) * (real m / real n * pow2 E)) (fround_quot s m n E)"
proof -
  define K where "K = floorlog 2 n + 26"
  define q where "q = (m * 2 ^ K) div n"
  define r where "r = (m * 2 ^ K) mod n"
  define M where "M = 2 * q + (if r = 0 then 0 else 1)"
  define X where "X = 2 * real (m * 2 ^ K) / real n"
  have unfold: "fround_quot s m n E = fround s M (E - int K - 1)"
    unfolding fround_quot_def Let_def M_def q_def r_def K_def by simp
  have split: "m * 2 ^ K = q * n + r"
    unfolding q_def r_def by (rule div_mult_mod_eq [symmetric])
  have rn: "r < n"
    unfolding r_def using n by simp
  have Xq: "X = 2 * real q + 2 * real r / real n"
    unfolding X_def split using n by (simp add: field_simps)
  have "n < 2 ^ floorlog 2 n"
    using floorlog_bounds [of n 2] n by simp
  then have "2 ^ 26 * n \<le> 2 ^ 26 * 2 ^ floorlog 2 n"
    by simp
  also have "\<dots> = 2 ^ K"
    by (simp add: K_def power_add)
  also have "\<dots> \<le> m * 2 ^ K"
    using m by simp
  finally have "(2 ^ 26 * n) div n \<le> q"
    unfolding q_def by (rule div_le_mono)
  then have q: "2 ^ 26 \<le> q"
    using n by simp
  have M: "0 < M"
    using q by (simp add: M_def)
  have cond: "X = real M \<or> (odd M \<and> \<bar>X - real M\<bar> < 1 \<and> 2 ^ 26 \<le> M)"
  proof (cases "r = 0")
    case True
    then show ?thesis by (simp add: Xq M_def)
  next
    case False
    have "2 * real r / real n < 2"
      using rn n by (simp add: field_simps)
    moreover have "0 < 2 * real r / real n"
      using False n by simp
    ultimately have "\<bar>X - real M\<bar> < 1"
      using False by (simp add: Xq M_def abs_less_iff)
    moreover have "odd M"
      using False by (simp add: M_def)
    moreover have "2 ^ 26 \<le> M"
      using q by (simp add: M_def)
    ultimately show ?thesis by blast
  qed
  have "pow2 E = pow2 (int K + 1 + (E - int K - 1))"
    by simp
  also have "\<dots> = 2 ^ K * 2 * pow2 (E - int K - 1)"
    by (simp only: pow2_add pow2_nat pow2_numeral)
  finally have val: "X * pow2 (E - int K - 1) = real m / real n * pow2 E"
    by (simp add: X_def)
  have pos: "0 \<le> X"
    by (simp add: X_def)
  have "X * pow2 (E - int K - 1) < 2 ^ 127"
    using fin by (simp only: val)
  from fround_rounds [OF M cond this pos, of s] show ?thesis
    by (simp only: unfold val)
qed

lemma fdiv_rounds:
  assumes "is_finite a" "is_finite b" "valof b \<noteq> 0" "\<bar>valof a / valof b\<bar> < 2 ^ 127"
  shows "rounds_to (valof a / valof b) (fdiv a b)"
proof -
  obtain s m e where a: "a = Finite s m e" using assms(1) by (cases a) auto
  obtain t n f where b: "b = Finite t n f" using assms(2) by (cases b) auto
  have n: "0 < n" using assms(3) by (simp add: b)
  show ?thesis
  proof (cases "m = 0")
    case True
    then have "valof a / valof b = 0" "fdiv a b = Finite (s \<noteq> t) 0 (- 149)"
      using n by (simp_all add: a b)
    then show ?thesis by (simp only: rounds_to_zero)
  next
    case False
    have z: "valof a / valof b =
        (if s \<noteq> t then - 1 else 1) * (real m / real n * pow2 (e - f))"
      by (simp add: a b pow2_diff)
    have "real m / real n * pow2 (e - f) = \<bar>valof a / valof b\<bar>"
      unfolding z by (simp add: abs_mult)
    then have "real m / real n * pow2 (e - f) < 2 ^ 127"
      using assms(4) by simp
    then have "rounds_to ((if s \<noteq> t then - 1 else 1) * (real m / real n * pow2 (e - f)))
        (fround_quot (s \<noteq> t) m n (e - f))"
      using False n by (intro fround_quot_rounds) simp_all
    then show ?thesis
      unfolding z using False n by (simp add: a b)
  qed
qed

lemma isqrt_bounds: "isqrt n * isqrt n \<le> n \<and> n < (isqrt n + 1) * (isqrt n + 1)"
proof (induction n rule: isqrt.induct)
  case (1 n)
  show ?case
  proof (cases "n < 2")
    case True
    then have "isqrt n = n" by (simp add: isqrt.simps)
    moreover from True have "n = 0 \<or> n = 1" by auto
    ultimately show ?thesis by auto
  next
    case False
    define r0 where "r0 = isqrt (n div 4)"
    have ih: "r0 * r0 \<le> n div 4" "n div 4 < (r0 + 1) * (r0 + 1)"
      using 1 False by (simp_all add: r0_def)
    have lo: "(2 * r0) * (2 * r0) \<le> n"
      using ih(1) by (simp add: algebra_simps)
    have "n div 4 + 1 \<le> (r0 + 1) * (r0 + 1)"
      using ih(2) by simp
    then have hi: "n < (2 * r0 + 2) * (2 * r0 + 2)"
      by (simp add: algebra_simps)
    have res: "isqrt n = (if (2 * r0 + 1) * (2 * r0 + 1) \<le> n then 2 * r0 + 1 else 2 * r0)"
      using False by (subst isqrt.simps) (simp add: Let_def r0_def)
    show ?thesis
    proof (cases "(2 * r0 + 1) * (2 * r0 + 1) \<le> n")
      case True
      then have "isqrt n = 2 * r0 + 1" by (simp add: res)
      then show ?thesis using True hi by (simp add: algebra_simps)
    next
      case False
      then have "isqrt n = 2 * r0" by (simp add: res)
      then show ?thesis using False lo by (simp add: algebra_simps)
    qed
  qed
qed

lemma fround_sqrt_repr:
  assumes m: "0 < m"
  shows "\<exists>M E' X. fround_sqrt m e = fround False M E' \<and> 0 < M \<and> 0 \<le> X \<and>
           (X = real M \<or> (odd M \<and> \<bar>X - real M\<bar> < 1 \<and> 2 ^ 26 \<le> M)) \<and>
           X * pow2 E' = sqrt (real m * pow2 e)"
proof -
  define K where "K = 52 + nat (e mod 2)"
  define N where "N = m * 2 ^ K"
  define r where "r = isqrt N"
  define M where "M = 2 * r + (if r * r = N then 0 else 1)"
  define E' where "E' = (e - int K) div 2"
  define X where "X = 2 * sqrt (real N)"
  have unfold: "fround_sqrt m e = fround False M (E' - 1)"
    unfolding fround_sqrt_def Let_def M_def r_def N_def K_def E'_def by simp
  have "(e - int K) mod 2 = 0"
    unfolding K_def by (simp add: mod_diff_left_eq [symmetric])
  then have even: "e - int K = E' + E'"
    unfolding E'_def by presburger
  have "pow2 e = pow2 (int K + (e - int K))"
    by simp
  also have "\<dots> = 2 ^ K * (pow2 E' * pow2 E')"
    unfolding even by (simp only: pow2_add pow2_nat)
  finally have "real m * pow2 e = real N * (pow2 E' * pow2 E')"
    by (simp add: N_def)
  then have "sqrt (real m * pow2 e) = sqrt (real N) * pow2 E'"
    by (simp add: real_sqrt_mult)
  moreover have "pow2 E' = 2 * pow2 (E' - 1)"
    by (simp add: pow2_diff pow2_numeral)
  ultimately have val: "X * pow2 (E' - 1) = sqrt (real m * pow2 e)"
    by (simp add: X_def)
  have lo: "r * r \<le> N" and hi: "N < (r + 1) * (r + 1)"
    using isqrt_bounds [of N] by (simp_all add: r_def)
  have "(2::nat) ^ 52 \<le> 2 ^ K"
    by (rule power_increasing) (simp_all add: K_def)
  also have "\<dots> \<le> N"
    using m by (simp add: N_def)
  finally have N: "2 ^ 52 \<le> N" .
  have r: "2 ^ 26 \<le> r"
  proof (rule ccontr)
    assume "\<not> 2 ^ 26 \<le> r"
    then have "r + 1 \<le> 2 ^ 26" by simp
    then have "(r + 1) * (r + 1) \<le> 2 ^ 26 * 2 ^ 26"
      by (intro mult_le_mono)
    with hi N show False by simp
  qed
  have M: "0 < M"
    using r by (simp add: M_def)
  have cond: "X = real M \<or> (odd M \<and> \<bar>X - real M\<bar> < 1 \<and> 2 ^ 26 \<le> M)"
  proof (cases "r * r = N")
    case True
    then have "real N = real r * real r"
      by (metis of_nat_mult)
    then have "sqrt (real N) = real r"
      by simp
    then show ?thesis
      using True by (simp add: X_def M_def)
  next
    case False
    with lo have "r * r < N" by simp
    then have "real (r * r) < real N"
      by (rule iffD2 [OF of_nat_less_iff])
    then have "(real r)\<^sup>2 < real N"
      by (simp add: power2_eq_square)
    then have low: "real r < sqrt (real N)"
      by (rule real_less_rsqrt)
    from hi have "real N < real ((r + 1) * (r + 1))"
      by (rule iffD2 [OF of_nat_less_iff])
    then have "real N < (real r + 1)\<^sup>2"
      by (simp add: power2_eq_square algebra_simps)
    then have high: "sqrt (real N) < real r + 1"
      by (intro real_less_lsqrt) simp_all
    have "\<bar>X - real M\<bar> < 1"
      using low high False by (simp add: X_def M_def abs_less_iff)
    moreover have "odd M"
      using False by (simp add: M_def)
    moreover have "2 ^ 26 \<le> M"
      using r by (simp add: M_def)
    ultimately show ?thesis by blast
  qed
  have pos: "0 \<le> X"
    by (simp add: X_def)
  show ?thesis
    using unfold M pos cond val by blast
qed

lemma fround_sqrt_rounds:
  assumes m: "0 < m" and fin: "sqrt (real m * pow2 e) < 2 ^ 127"
  shows "rounds_to (sqrt (real m * pow2 e)) (fround_sqrt m e)"
proof -
  obtain M E' X where r: "fround_sqrt m e = fround False M E'" and M: "0 < M"
    and pos: "0 \<le> X"
    and cond: "X = real M \<or> (odd M \<and> \<bar>X - real M\<bar> < 1 \<and> 2 ^ 26 \<le> M)"
    and val: "X * pow2 E' = sqrt (real m * pow2 e)"
    using fround_sqrt_repr [OF m, of e] by blast
  have "X * pow2 E' < 2 ^ 127"
    using fin by (simp only: val)
  from fround_rounds [OF M cond this pos, of False] show ?thesis
    by (simp add: r val)
qed

lemma fsqrt_rounds:
  assumes "is_finite a" "0 \<le> valof a" "sqrt (valof a) < 2 ^ 127"
  shows "rounds_to (sqrt (valof a)) (fsqrt a)"
proof -
  obtain s m e where a: "a = Finite s m e" using assms(1) by (cases a) auto
  show ?thesis
  proof (cases "m = 0")
    case True
    then have "sqrt (valof a) = 0" "fsqrt a = Finite s 0 (- 149)"
      by (simp_all add: a)
    then show ?thesis by (simp only: rounds_to_zero)
  next
    case False
    then have "0 < real m * pow2 e" by simp
    with assms(2) have s: "\<not> s"
      by (cases s) (simp_all add: a)
    then have v: "valof a = real m * pow2 e"
      by (simp add: a)
    have "rounds_to (sqrt (real m * pow2 e)) (fround_sqrt m e)"
      using False assms(3) by (intro fround_sqrt_rounds) (simp_all add: v)
    then show ?thesis
      using False s by (simp add: a)
  qed
qed

text \<open>
  Conversely, a finite result of an operation has finite operands and rounds the
  exact result, whatever its magnitude: overflow gives an infinity, never a wrong
  finite value.
\<close>

lemma fround_finite_rounds:
  fixes X :: real
  assumes "0 < M"
    and "X = real M \<or> (odd M \<and> \<bar>X - real M\<bar> < 1 \<and> 2 ^ 26 \<le> M)"
    and "0 \<le> X"
    and "is_finite (fround s M E)"
  shows "rounds_to ((if s then - 1 else 1) * (X * pow2 E)) (fround s M E)"
proof -
  obtain m e where p: "fround s M E = pack s m e"
    and c: "\<bar>real m * pow2 e - X * pow2 E\<bar> \<le> max (X * pow2 E / 2 ^ 24) (1 / 2 ^ 150)"
    using fround_shape [OF assms(1,2), of s E] by blast
  have r: "fround s M E = Finite s m e"
    using assms(4) unfolding p by (simp add: pack_def split: if_splits)
  have absz: "\<bar>(if s then - 1 else 1) * (X * pow2 E)\<bar> = X * pow2 E"
    using assms(3) by (simp add: abs_mult)
  have eq: "\<bar>valof (Finite s m e) - (if s then - 1 else 1) * (X * pow2 E)\<bar> =
      \<bar>real m * pow2 e - X * pow2 E\<bar>"
    by (cases s) (simp_all add: abs_minus_commute)
  show ?thesis
    unfolding rounds_to_def r absz eq using c by simp
qed

lemma fround_bound:
  assumes "is_finite (fround s M E)"
  shows "\<bar>valof (fround s M E)\<bar> < 2 ^ 128"
proof (cases "M = 0")
  case True
  then show ?thesis by (simp add: fround_def)
next
  case False
  then have "0 < M" by simp
  then obtain m e where p: "fround s M E = pack s m e" and m: "m < 2 ^ 24"
    using fround_shape [of M "real M" s E] by blast
  have e: "e \<le> 104" and r: "fround s M E = Finite s m e"
    using assms unfolding p by (simp_all add: pack_def split: if_splits)
  have "real m < 2 ^ 24"
    using m by simp
  moreover have "pow2 e \<le> pow2 104"
    using e by (rule pow2_mono)
  ultimately have "real m * pow2 e < 2 ^ 24 * pow2 104"
    by (intro mult_less_le_imp_less) simp_all
  also have "\<dots> = 2 ^ 128"
    by (simp add: pow2_numeral)
  finally show ?thesis
    by (simp add: r abs_mult)
qed

lemma fround_nonneg: "0 \<le> valof (fround False M E)"
proof (cases "M = 0")
  case True
  then show ?thesis by (simp add: fround_def)
next
  case False
  then have "0 < M" by simp
  then obtain m e where "fround False M E = pack False m e"
    using fround_shape [of M "real M" False E] by blast
  moreover have "0 \<le> real m * pow2 e"
    by (intro mult_nonneg_nonneg) (simp_all add: less_imp_le)
  ultimately show ?thesis
    by (simp add: pack_def)
qed

lemma fmul_finite:
  assumes "is_finite (fmul a b)"
  shows "is_finite a \<and> is_finite b \<and> rounds_to (valof a * valof b) (fmul a b)"
proof -
  obtain s m e where a: "a = Finite s m e"
    using assms by (cases a; cases b) (auto split: if_splits)
  obtain t n f where b: "b = Finite t n f"
    using assms by (cases b) (auto simp: a split: if_splits)
  have r: "rounds_to (valof a * valof b) (fmul a b)"
  proof (cases "m * n = 0")
    case True
    then have "valof a * valof b = 0" by (auto simp: a b)
    moreover have "fmul a b = Finite (s \<noteq> t) 0 (- 149)"
      using True by (simp add: a b fround_def)
    ultimately show ?thesis by (simp only: rounds_to_zero)
  next
    case False
    have z: "valof a * valof b =
        (if s \<noteq> t then - 1 else 1) * (real (m * n) * pow2 (e + f))"
      by (simp add: a b pow2_add)
    have "is_finite (fround (s \<noteq> t) (m * n) (e + f))"
      using assms by (simp add: a b)
    then have "rounds_to ((if s \<noteq> t then - 1 else 1) * (real (m * n) * pow2 (e + f)))
        (fround (s \<noteq> t) (m * n) (e + f))"
      using False by (intro fround_finite_rounds) simp_all
    then show ?thesis
      unfolding z by (simp add: a b)
  qed
  then show ?thesis
    by (simp add: a b)
qed

lemma fmul_self_nonneg: "0 \<le> valof (fmul c c)"
proof (cases c)
  case (Finite s m e)
  then show ?thesis
    using fround_nonneg [of "m * m" "e + e"] by simp
qed simp_all

lemma fadd_finite:
  assumes "is_finite (fadd a b)"
  shows "is_finite a \<and> is_finite b \<and> rounds_to (valof a + valof b) (fadd a b) \<and>
         \<bar>valof (fadd a b)\<bar> < 2 ^ 128"
proof -
  obtain s m e where a: "a = Finite s m e"
    using assms by (cases a; cases b) (auto split: if_splits)
  obtain t n f where b: "b = Finite t n f"
    using assms by (cases b) (auto simp: a split: if_splits)
  define E where "E = min e f"
  define T where "T = signed s m * 2 ^ nat (e - E) + signed t n * 2 ^ nat (f - E)"
  have pe: "pow2 e = 2 ^ nat (e - E) * pow2 E"
  proof -
    have "pow2 e = pow2 (int (nat (e - E)) + E)" by (simp add: E_def)
    then show ?thesis by (simp only: pow2_add pow2_nat)
  qed
  have pf: "pow2 f = 2 ^ nat (f - E) * pow2 E"
  proof -
    have "pow2 f = pow2 (int (nat (f - E)) + E)" by (simp add: E_def)
    then show ?thesis by (simp only: pow2_add pow2_nat)
  qed
  have va: "valof a = real_of_int (signed s m) * pow2 e"
    by (simp add: a signed_def)
  have vb: "valof b = real_of_int (signed t n) * pow2 f"
    by (simp add: b signed_def)
  have z: "valof a + valof b = real_of_int T * pow2 E"
    unfolding va vb T_def by (simp add: pe pf algebra_simps)
  have r: "fadd a b = (if T = 0 then Finite (s \<and> t) 0 (- 149) else fround (T < 0) (nat \<bar>T\<bar>) E)"
    unfolding a b fadd.simps Let_def E_def T_def by (rule refl)
  have "rounds_to (valof a + valof b) (fadd a b) \<and> \<bar>valof (fadd a b)\<bar> < 2 ^ 128"
  proof (cases "T = 0")
    case True
    then have "fadd a b = Finite (s \<and> t) 0 (- 149)" "valof a + valof b = 0"
      by (simp_all add: r z)
    then show ?thesis by (simp add: rounds_to_zero)
  next
    case False
    have T: "real_of_int T = (if T < 0 then - 1 else 1) * real (nat \<bar>T\<bar>)"
      by simp
    have fin: "is_finite (fround (T < 0) (nat \<bar>T\<bar>) E)"
      using assms False by (simp add: r)
    then have "rounds_to ((if T < 0 then - 1 else 1) * (real (nat \<bar>T\<bar>) * pow2 E))
        (fround (T < 0) (nat \<bar>T\<bar>) E)"
      using False by (intro fround_finite_rounds) simp_all
    moreover have "valof a + valof b = (if T < 0 then - 1 else 1) * (real (nat \<bar>T\<bar>) * pow2 E)"
      unfolding z by (subst T) simp
    ultimately show ?thesis
      using False fround_bound [OF fin] by (simp add: r)
  qed
  then show ?thesis
    by (simp add: a b)
qed

lemma fround_sqrt_finite:
  assumes m: "0 < m" and fin: "is_finite (fround_sqrt m e)"
  shows "rounds_to (sqrt (real m * pow2 e)) (fround_sqrt m e)"
proof -
  obtain M E' X where r: "fround_sqrt m e = fround False M E'" and M: "0 < M"
    and pos: "0 \<le> X"
    and cond: "X = real M \<or> (odd M \<and> \<bar>X - real M\<bar> < 1 \<and> 2 ^ 26 \<le> M)"
    and val: "X * pow2 E' = sqrt (real m * pow2 e)"
    using fround_sqrt_repr [OF m, of e] by blast
  have "is_finite (fround False M E')"
    using fin by (simp only: r)
  from fround_finite_rounds [OF M cond pos this] show ?thesis
    by (simp add: r val)
qed

lemma fsqrt_finite:
  assumes "is_finite (fsqrt a)"
  shows "is_finite a \<and> 0 \<le> valof a \<and> rounds_to (sqrt (valof a)) (fsqrt a) \<and>
         0 \<le> valof (fsqrt a)"
proof -
  obtain s m e where a: "a = Finite s m e"
    using assms by (cases a) (auto split: if_splits)
  show ?thesis
  proof (cases "m = 0")
    case True
    then have "sqrt (valof a) = 0" "fsqrt a = Finite s 0 (- 149)" "valof a = 0"
      by (simp_all add: a)
    moreover have "is_finite a"
      by (simp add: a)
    ultimately show ?thesis by (simp only: rounds_to_zero) simp
  next
    case False
    then have s: "\<not> s"
      using assms by (cases s) (simp_all add: a)
    then have v: "valof a = real m * pow2 e"
      by (simp add: a)
    have f: "fsqrt a = fround_sqrt m e"
      using False s by (simp add: a)
    have "rounds_to (sqrt (real m * pow2 e)) (fround_sqrt m e)"
      using False assms by (intro fround_sqrt_finite) (simp_all add: f)
    moreover have "0 \<le> valof (fround_sqrt m e)"
      unfolding fround_sqrt_def Let_def by (rule fround_nonneg)
    moreover have "0 \<le> real m * pow2 e"
      by (intro mult_nonneg_nonneg) (simp_all add: less_imp_le)
    then have "is_finite a" "0 \<le> valof a"
      by (simp_all add: a s)
    ultimately show ?thesis
      unfolding f v by blast
  qed
qed

section \<open>Accumulated relative error\<close>

lemma d_bounds: "0 < (1 - 1 / 2 ^ 24 :: real)" "(1 - 1 / 2 ^ 24 :: real) \<le> 1"
  by simp_all

lemma dk_pos: "0 < (1 - 1 / 2 ^ 24 :: real) ^ k"
  by (rule zero_less_power) simp

lemma dk_le_1: "(1 - 1 / 2 ^ 24 :: real) ^ k \<le> 1"
  by (rule power_le_one) simp_all

lemma dk_mono: "j \<le> k \<Longrightarrow> (1 - 1 / 2 ^ 24 :: real) ^ k \<le> (1 - 1 / 2 ^ 24) ^ j"
  by (rule power_decreasing) simp_all

lemma dk_lower: "1 - real k / 2 ^ 24 \<le> (1 - 1 / 2 ^ 24 :: real) ^ k"
  using Bernoulli_inequality [of "- (1 / 2 ^ 24)" k] by simp

lemma near_refl: "near 0 z z"
  by (simp add: near_def)

lemma near_zero: "near k 0 0"
  by (simp add: near_def)

lemma near_mono:
  assumes "near j z v" "j \<le> k" "0 \<le> z" "0 \<le> v"
  shows "near k z v"
proof -
  have "z * (1 - 1 / 2 ^ 24) ^ k \<le> z * (1 - 1 / 2 ^ 24) ^ j"
    using assms(2,3) by (intro mult_left_mono dk_mono)
  moreover have "v * (1 - 1 / 2 ^ 24) ^ k \<le> v * (1 - 1 / 2 ^ 24) ^ j"
    using assms(2,4) by (intro mult_left_mono dk_mono)
  ultimately show ?thesis
    using assms(1) unfolding near_def by linarith
qed

lemma near_trans:
  assumes "near j z w" "near k w v"
  shows "near (j + k) z v"
proof -
  define dj dk :: real where "dj = (1 - 1 / 2 ^ 24) ^ j" and "dk = (1 - 1 / 2 ^ 24) ^ k"
  have pos: "0 \<le> dj" "0 \<le> dk"
    using dk_pos [of j] dk_pos [of k] by (simp_all add: dj_def dk_def)
  have a: "z * dj \<le> w" "w * dj \<le> z" "w * dk \<le> v" "v * dk \<le> w"
    using assms by (simp_all add: near_def dj_def dk_def)
  have "z * dj * dk \<le> w * dk"
    using a(1) pos(2) by (rule mult_right_mono)
  then have one: "z * (dj * dk) \<le> v"
    using a(3) by (simp add: mult.assoc)
  have "v * dk * dj \<le> w * dj"
    using a(4) pos(1) by (rule mult_right_mono)
  then have two: "v * (dj * dk) \<le> z"
    using a(2) by (simp add: mult.assoc mult.commute [of dj dk])
  show ?thesis
    using one two by (simp add: near_def power_add dj_def dk_def)
qed

lemma near_mult:
  assumes "near j z1 v1" "near k z2 v2" "0 \<le> z1" "0 \<le> z2" "0 \<le> v1" "0 \<le> v2"
  shows "near (j + k) (z1 * z2) (v1 * v2)"
proof -
  have "(z1 * (1 - 1 / 2 ^ 24) ^ j) * (z2 * (1 - 1 / 2 ^ 24) ^ k) \<le> v1 * v2"
    using assms dk_pos [of j] dk_pos [of k] unfolding near_def
    by (intro mult_mono) simp_all
  moreover have "(v1 * (1 - 1 / 2 ^ 24) ^ j) * (v2 * (1 - 1 / 2 ^ 24) ^ k) \<le> z1 * z2"
    using assms dk_pos [of j] dk_pos [of k] unfolding near_def
    by (intro mult_mono) simp_all
  ultimately show ?thesis
    unfolding near_def by (simp add: power_add mult.assoc mult.commute mult.left_commute)
qed

lemma near_trans_eq:
  assumes "near j z w" "near i w v" "j + i = n"
  shows "near n z v"
  using near_trans [OF assms(1,2)] assms(3) by simp

lemma near_scale:
  assumes "near i z v" "0 \<le> c" "0 \<le> z" "0 \<le> v"
  shows "near i (c * z) (c * v)"
  using near_mult [OF near_refl [of c] assms(1) assms(2) assms(3) assms(2) assms(4)] by simp

lemma near_add:
  assumes "near k z1 v1" "near k z2 v2"
  shows "near k (z1 + z2) (v1 + v2)"
  using assms unfolding near_def by (simp add: algebra_simps) 

lemma near_sqrt:
  assumes "near (k + k) z v" "0 \<le> z" "0 \<le> v"
  shows "near k (sqrt z) (sqrt v)"
proof -
  have sq: "sqrt ((1 - 1 / 2 ^ 24 :: real) ^ (k + k)) = (1 - 1 / 2 ^ 24) ^ k"
    using dk_pos [of k] by (simp add: power_add real_sqrt_mult)
  have "sqrt (z * (1 - 1 / 2 ^ 24) ^ (k + k)) \<le> sqrt v"
    using assms(1) unfolding near_def by (simp only: real_sqrt_le_iff)
  moreover have "sqrt (v * (1 - 1 / 2 ^ 24) ^ (k + k)) \<le> sqrt z"
    using assms(1) unfolding near_def by (simp only: real_sqrt_le_iff)
  ultimately show ?thesis
    unfolding near_def by (simp only: real_sqrt_mult sq)
qed

lemma near_inverse:
  assumes "near k z v" "0 < z" "0 < v"
  shows "near k (1 / z) (1 / v)"
  using assms unfolding near_def by (simp add: field_simps)

lemma near_half:
  assumes "near k z v" "k \<le> 16" "0 \<le> z" "0 \<le> v"
  shows "z / 2 \<le> v \<and> v / 2 \<le> z"
proof -
  have w: "near 16 z v"
    using assms by (rule near_mono)
  have "(1 / 2 :: real) \<le> (1 - 1 / 2 ^ 24) ^ 16"
    using dk_lower [of 16] by simp
  then have "z * (1 / 2) \<le> z * (1 - 1 / 2 ^ 24) ^ 16" "v * (1 / 2) \<le> v * (1 - 1 / 2 ^ 24) ^ 16"
    using assms(3,4) by (simp_all only: mult_left_mono)
  with w show ?thesis
    unfolding near_def by simp
qed

lemma near_pos:
  assumes "near k z v" "0 < z"
  shows "0 < v"
proof -
  have "0 < z * (1 - 1 / 2 ^ 24) ^ k"
    using assms(2) dk_pos [of k] by (rule mult_pos_pos)
  with assms(1) show ?thesis
    unfolding near_def by linarith
qed

lemma rounds_to_within:
  assumes "rounds_to z r" "1 / 2 ^ 126 \<le> \<bar>z\<bar>"
  shows "near 1 \<bar>z\<bar> \<bar>valof r\<bar>"
proof -
  have "1 / 2 ^ 150 \<le> \<bar>z\<bar> / 2 ^ 24"
    using assms(2) by simp
  then have "\<bar>valof r - z\<bar> \<le> \<bar>z\<bar> / 2 ^ 24"
    using assms(1) by (simp add: rounds_to_def)
  then have "\<bar>\<bar>valof r\<bar> - \<bar>z\<bar>\<bar> \<le> \<bar>z\<bar> / 2 ^ 24"
    by linarith
  then have "\<bar>z\<bar> - \<bar>z\<bar> / 2 ^ 24 \<le> \<bar>valof r\<bar>" "\<bar>valof r\<bar> \<le> \<bar>z\<bar> + \<bar>z\<bar> / 2 ^ 24"
    by linarith+
  then have lo: "\<bar>z\<bar> * (1 - 1 / 2 ^ 24) \<le> \<bar>valof r\<bar>"
    and hi: "\<bar>valof r\<bar> \<le> \<bar>z\<bar> * (1 + 1 / 2 ^ 24)"
    by (simp_all add: algebra_simps)
  have "\<bar>valof r\<bar> * (1 - 1 / 2 ^ 24) \<le> \<bar>z\<bar> * (1 + 1 / 2 ^ 24) * (1 - 1 / 2 ^ 24)"
    using hi by (intro mult_right_mono) simp_all
  also have "\<dots> = \<bar>z\<bar> * (1 - (1 / 2 ^ 24) * (1 / 2 ^ 24))"
    by (simp add: algebra_simps)
  also have "\<dots> \<le> \<bar>z\<bar> * 1"
    by (intro mult_left_mono) simp_all
  finally show ?thesis
    using lo by (simp add: near_def)
qed

lemma rounds_to_sign:
  assumes "rounds_to z r" "1 / 2 ^ 126 \<le> \<bar>z\<bar>"
  shows "(0 < valof r) = (0 < z) \<and> valof r \<noteq> 0"
proof -
  have "1 / 2 ^ 150 \<le> \<bar>z\<bar> / 2 ^ 24"
    using assms(2) by simp
  then have "\<bar>valof r - z\<bar> \<le> \<bar>z\<bar> / 2 ^ 24"
    using assms(1) by (simp add: rounds_to_def)
  moreover have "\<bar>z\<bar> / 2 ^ 24 < \<bar>z\<bar>"
    using assms(2) by (simp add: field_simps) 
  ultimately have "\<bar>valof r - z\<bar> < \<bar>z\<bar>"
    by linarith
  then show ?thesis
    by linarith
qed

lemma valof_zero_iff: "valof (Finite s m e) = 0 \<longleftrightarrow> m = 0"
  by simp

lemma fmul_zero:
  assumes "is_finite a" "is_finite b" "valof a = 0 \<or> valof b = 0"
  shows "is_finite (fmul a b) \<and> valof (fmul a b) = 0"
proof -
  obtain s m e where a: "a = Finite s m e" using assms(1) by (cases a) auto
  obtain t n f where b: "b = Finite t n f" using assms(2) by (cases b) auto
  from assms(3) have "m * n = 0"
    unfolding a b valof_zero_iff by simp
  then have "fmul a b = Finite (s \<noteq> t) 0 (- 149)"
    by (simp add: a b fround_def)
  then show ?thesis by simp
qed

lemma fdiv_zero:
  assumes "is_finite a" "is_finite b" "valof a = 0" "valof b \<noteq> 0"
  shows "is_finite (fdiv a b) \<and> valof (fdiv a b) = 0"
proof -
  obtain s m e where a: "a = Finite s m e" using assms(1) by (cases a) auto
  obtain t n f where b: "b = Finite t n f" using assms(2) by (cases b) auto
  from assms(3,4) have "m = 0" "n \<noteq> 0"
    unfolding a b valof_zero_iff by simp_all
  then have "fdiv a b = Finite (s \<noteq> t) 0 (- 149)"
    by (simp add: a b)
  then show ?thesis by simp
qed

lemma rounds_to_normal:
  assumes "rounds_to z r" "1 / 2 ^ 126 \<le> \<bar>z\<bar>"
  shows "\<bar>valof r - z\<bar> \<le> \<bar>z\<bar> / 2 ^ 24"
proof -
  have "1 / 2 ^ 150 \<le> \<bar>z\<bar> / 2 ^ 24"
    using assms(2) by simp
  then show ?thesis
    using assms(1) by (simp add: rounds_to_def)
qed

lemma product_then_quotient:
  assumes "safe_product p q"
  shows "close_to (fdiv (fmul p q) q) p"
proof (cases "valof p = 0")
  case True
  have fin: "is_finite p" "is_finite q" "valof q \<noteq> 0"
    using assms by (simp_all add: safe_product_def)
  have "is_finite (fmul p q) \<and> valof (fmul p q) = 0"
    using fin True by (intro fmul_zero) simp_all
  then have "is_finite (fdiv (fmul p q) q) \<and> valof (fdiv (fmul p q) q) = 0"
    using fin by (intro fdiv_zero) simp_all
  then show ?thesis
    by (simp add: close_to_def True)
next
  case False
  define P Q where "P = valof p" and "Q = valof q"
  have fin: "is_finite p" "is_finite q" and Q: "Q \<noteq> 0"
    and P: "1 / 2 ^ 126 \<le> \<bar>P\<bar>" "\<bar>P\<bar> \<le> 2 ^ 126"
    and PQ: "1 / 2 ^ 126 \<le> \<bar>P * Q\<bar>" "\<bar>P * Q\<bar> \<le> 2 ^ 126"
    using assms False by (simp_all add: safe_product_def P_def Q_def)
  define R1 where "R1 = valof (fmul p q)"
  have r1: "rounds_to (P * Q) (fmul p q)"
    unfolding P_def Q_def using fin PQ(2) by (intro fmul_rounds) (simp_all add: P_def Q_def)
  then have f1: "is_finite (fmul p q)"
    by (simp add: rounds_to_def)
  have e1: "\<bar>R1 - P * Q\<bar> \<le> \<bar>P * Q\<bar> / 2 ^ 24"
    unfolding R1_def using r1 PQ(1) by (rule rounds_to_normal)
  have "R1 / Q - P = (R1 - P * Q) / Q"
    using Q by (simp add: field_simps)
  then have "\<bar>R1 / Q - P\<bar> = \<bar>R1 - P * Q\<bar> / \<bar>Q\<bar>"
    by simp
  also have "\<dots> \<le> (\<bar>P * Q\<bar> / 2 ^ 24) / \<bar>Q\<bar>"
    using e1 by (intro divide_right_mono) simp_all
  also have "\<dots> = \<bar>P\<bar> / 2 ^ 24"
    using Q by (simp add: abs_mult)
  finally have e2: "\<bar>R1 / Q - P\<bar> \<le> \<bar>P\<bar> / 2 ^ 24" .
  then have z2: "\<bar>R1 / Q\<bar> \<le> \<bar>P\<bar> + \<bar>P\<bar> / 2 ^ 24"
    by linarith
  have "(0::real) < 1 / 2 ^ 126"
    by simp
  with P(1) have "\<bar>P\<bar> / 2 ^ 24 < \<bar>P\<bar>"
    by simp
  moreover have "(2::real) ^ 127 = 2 * 2 ^ 126"
    by simp
  ultimately have "\<bar>R1 / Q\<bar> < 2 ^ 127"
    using z2 P(2) by linarith
  then have r2: "rounds_to (R1 / Q) (fdiv (fmul p q) q)"
    unfolding R1_def Q_def using f1 fin(2) Q by (intro fdiv_rounds) (simp_all add: Q_def)
  define R2 where "R2 = valof (fdiv (fmul p q) q)"
  have "\<bar>R1 / Q\<bar> / 2 ^ 24 \<le> (\<bar>P\<bar> + \<bar>P\<bar> / 2 ^ 24) / 2 ^ 24"
    using z2 by (intro divide_right_mono) simp_all
  moreover have "1 / 2 ^ 150 \<le> (\<bar>P\<bar> + \<bar>P\<bar> / 2 ^ 24) / 2 ^ 24"
    using P(1) by simp
  ultimately have "max (\<bar>R1 / Q\<bar> / 2 ^ 24) (1 / 2 ^ 150) \<le> (\<bar>P\<bar> + \<bar>P\<bar> / 2 ^ 24) / 2 ^ 24"
    by (rule max.boundedI)
  moreover have "\<bar>R2 - R1 / Q\<bar> \<le> max (\<bar>R1 / Q\<bar> / 2 ^ 24) (1 / 2 ^ 150)"
    using r2 unfolding rounds_to_def R2_def by (rule conjunct2)
  ultimately have "\<bar>R2 - R1 / Q\<bar> \<le> (\<bar>P\<bar> + \<bar>P\<bar> / 2 ^ 24) / 2 ^ 24"
    by (rule order_trans [rotated])
  with e2 have "\<bar>R2 - P\<bar> \<le> (\<bar>P\<bar> + \<bar>P\<bar> / 2 ^ 24) / 2 ^ 24 + \<bar>P\<bar> / 2 ^ 24"
    by linarith
  also have "\<dots> \<le> \<bar>P\<bar> / 2 ^ 22"
    by simp
  finally show ?thesis
    using r2 by (simp add: close_to_def rounds_to_def R2_def P_def)
qed

section \<open>Multiplying, then dividing\<close>

text \<open>
  C7, as stated, fails. With \<open>a = (2 ^ 100, 2 ^ -149)\<close> and \<open>b = (2 ^ 100, 1 / 2)\<close>, both
  components of \<open>b\<close> not zero, the first product overflows to infinity and stays
  infinite after the division, and the second product underflows to zero: the
  result \<open>(infinity, 0)\<close> is not \<open>a\<close> within any tolerance.
\<close>

theorem Divide_Multiply_overflow_underflow:
  "fne (Finite False 8388608 77) fzero \<and> fne (Finite False 8388608 (- 24)) fzero \<and>
   Divide
     (Multiply \<lparr>x = Finite False 8388608 77, y = Finite False 1 (- 149)\<rparr>
       \<lparr>x = Finite False 8388608 77, y = Finite False 8388608 (- 24)\<rparr>)
     \<lparr>x = Finite False 8388608 77, y = Finite False 8388608 (- 24)\<rparr> =
     \<lparr>x = Infinity False, y = Finite False 0 (- 149)\<rparr> \<and>
   \<not> close_to (Infinity False) (Finite False 8388608 77) \<and>
   \<not> close_to (Finite False 0 (- 149)) (Finite False 1 (- 149))"
proof -
  have "fmul (Finite False 8388608 77) (Finite False 8388608 77) = Infinity False"
    "fmul (Finite False 1 (- 149)) (Finite False 8388608 (- 24)) = Finite False 0 (- 149)"
    by (simp_all add: float_eval)
  moreover have "fdiv (Infinity False) (Finite False 8388608 77) = Infinity False"
    "fdiv (Finite False 0 (- 149)) (Finite False 8388608 (- 24)) = Finite False 0 (- 149)"
    by simp_all
  ultimately have "Divide
     (Multiply \<lparr>x = Finite False 8388608 77, y = Finite False 1 (- 149)\<rparr>
       \<lparr>x = Finite False 8388608 77, y = Finite False 8388608 (- 24)\<rparr>)
     \<lparr>x = Finite False 8388608 77, y = Finite False 8388608 (- 24)\<rparr> =
     \<lparr>x = Infinity False, y = Finite False 0 (- 149)\<rparr>"
    by (simp add: Divide_def Multiply_def Vector2f_2_def)
  moreover have "fne (Finite False 8388608 77) fzero" "fne (Finite False 8388608 (- 24)) fzero"
    by (simp_all add: fne_def fzero_def rel_of_def pow2_numeral)
  moreover have "\<not> close_to (Infinity False) (Finite False 8388608 77)"
    "\<not> close_to (Finite False 0 (- 149)) (Finite False 1 (- 149))"
    by (simp_all add: close_to_def pow2_numeral)
  ultimately show ?thesis
    by blast
qed

text \<open>
  C7, amended. For finite \<open>a\<close> and \<open>b\<close>, where each component of \<open>b\<close> is not zero and
  each component of \<open>a\<close> is zero or is, like its exact product with the component of
  \<open>b\<close>, between \<open>2 ^ -126\<close> and \<open>2 ^ 126\<close> in magnitude: each component of
  \<open>Divide(Multiply(a, b), b)\<close> is finite and equals the component of \<open>a\<close> within a
  relative error of \<open>2 ^ -22\<close>.
\<close>

theorem Divide_Multiply_round_trip:
  assumes "safe_product (x a) (x b)" "safe_product (y a) (y b)"
  shows "close_to (x (Divide (Multiply a b) b)) (x a) \<and>
         close_to (y (Divide (Multiply a b) b)) (y a)"
  using assms by (simp add: Divide_def Multiply_def Vector2f_2_def product_then_quotient)

text \<open>C7, amended, at \<open>a = (3, 0)\<close> and \<open>b = (7, 5)\<close>.\<close>

theorem Divide_Multiply_round_trip_witness:
  "safe_product (Finite False 12582912 (- 22)) (Finite False 14680064 (- 21)) \<and>
   safe_product (Finite False 0 (- 149)) (Finite False 10485760 (- 21)) \<and>
   close_to
     (x (Divide
       (Multiply \<lparr>x = Finite False 12582912 (- 22), y = Finite False 0 (- 149)\<rparr>
         \<lparr>x = Finite False 14680064 (- 21), y = Finite False 10485760 (- 21)\<rparr>)
       \<lparr>x = Finite False 14680064 (- 21), y = Finite False 10485760 (- 21)\<rparr>))
     (Finite False 12582912 (- 22)) \<and>
   close_to
     (y (Divide
       (Multiply \<lparr>x = Finite False 12582912 (- 22), y = Finite False 0 (- 149)\<rparr>
         \<lparr>x = Finite False 14680064 (- 21), y = Finite False 10485760 (- 21)\<rparr>)
       \<lparr>x = Finite False 14680064 (- 21), y = Finite False 10485760 (- 21)\<rparr>))
     (Finite False 0 (- 149))"
proof -
  define a where "a = \<lparr>x = Finite False 12582912 (- 22), y = Finite False 0 (- 149)\<rparr>"
  define b where "b = \<lparr>x = Finite False 14680064 (- 21), y = Finite False 10485760 (- 21)\<rparr>"
  have xy: "x a = Finite False 12582912 (- 22)" "y a = Finite False 0 (- 149)"
    "x b = Finite False 14680064 (- 21)" "y b = Finite False 10485760 (- 21)"
    by (simp_all add: a_def b_def)
  have s: "safe_product (x a) (x b)" "safe_product (y a) (y b)"
    by (simp_all add: xy safe_product_def pow2_numeral)
  from Divide_Multiply_round_trip [OF s] show ?thesis
    using s unfolding a_def [symmetric] b_def [symmetric] xy by blast
qed

section \<open>The length of a vector and of a rescaled vector\<close>

lemma fgt_finite:
  assumes "is_finite a" "is_finite b"
  shows "fgt a b = (valof b < valof a)"
proof -
  obtain s m e where a: "a = Finite s m e" using assms(1) by (cases a) auto
  obtain t n f where b: "b = Finite t n f" using assms(2) by (cases b) auto
  show ?thesis
    unfolding a b fgt_def fcompare.simps rel_of_def by auto
qed

lemma near_final:
  assumes "near k z v" "k \<le> 6" "0 \<le> z" "0 \<le> v"
  shows "\<bar>v - z\<bar> \<le> z / 2 ^ 21"
proof -
  have w: "near 6 z v"
    using assms by (rule near_mono)
  have six: "1 - 6 / 2 ^ 24 \<le> (1 - 1 / 2 ^ 24 :: real) ^ 6"
    using dk_lower [of 6] by simp
  then have "z * (1 - 1 / 2 ^ 21) \<le> z * (1 - 1 / 2 ^ 24) ^ 6"
    using assms(3) by (intro mult_left_mono) simp_all
  with w have lo: "z - z / 2 ^ 21 \<le> v"
    unfolding near_def by (simp add: algebra_simps)
  have "(1::real) \<le> (1 + 1 / 2 ^ 21) * (1 - 6 / 2 ^ 24)"
    by simp
  also have "\<dots> \<le> (1 + 1 / 2 ^ 21) * (1 - 1 / 2 ^ 24) ^ 6"
    using six by (intro mult_left_mono) simp_all
  finally have "v * 1 \<le> v * ((1 + 1 / 2 ^ 21) * (1 - 1 / 2 ^ 24) ^ 6)"
    using assms(4) by (intro mult_left_mono)
  then have "v \<le> (v * (1 - 1 / 2 ^ 24) ^ 6) * (1 + 1 / 2 ^ 21)"
    by (simp add: mult.assoc mult.commute)
  also have "\<dots> \<le> z * (1 + 1 / 2 ^ 21)"
    using w unfolding near_def by (intro mult_right_mono) simp_all
  finally have "v \<le> z + z / 2 ^ 21"
    by (simp add: algebra_simps)
  with lo show ?thesis
    by linarith
qed

lemma dk_upper: "(1 - 1 / 2 ^ 24 :: real) ^ k * (1 + real k / 2 ^ 24) \<le> 1"
proof (induction k)
  case 0
  show ?case by simp
next
  case (Suc k)
  define u :: real where "u = 1 / 2 ^ 24"
  have u: "0 \<le> u" "u \<le> 1"
    by (simp_all add: u_def)
  have k: "0 \<le> real k"
    by simp
  have "(1 - u) * (1 + (real k + 1) * u) = 1 + real k * u - (real k + 1) * (u * u)"
    by (simp add: algebra_simps)
  also have "\<dots> \<le> 1 + real k * u"
    using u k by simp
  finally have step: "(1 - u) * (1 + (real k + 1) * u) \<le> 1 + real k * u" .
  have "(1 - u) ^ Suc k * (1 + (real k + 1) * u) =
      (1 - u) ^ k * ((1 - u) * (1 + (real k + 1) * u))"
    by simp
  also have "\<dots> \<le> (1 - u) ^ k * (1 + real k * u)"
    using step u by (intro mult_left_mono) simp_all
  also have "\<dots> \<le> 1"
    using Suc by (simp add: u_def)
  finally show ?case
    by (simp add: u_def add.commute)
qed

lemma dk_half: "real k \<le> 2 ^ 24 \<Longrightarrow> (1 - 1 / 2 ^ 24 :: real) ^ k \<le> 1 - real k / 2 ^ 25"
proof (induction k)
  case 0
  show ?case by simp
next
  case (Suc k)
  define h :: real where "h = 1 / 2 ^ 25"
  have u: "1 - 1 / 2 ^ 24 = 1 - 2 * h"
    by (simp add: h_def)
  have h: "0 \<le> h" "0 \<le> 1 - 2 * h"
    by (simp_all add: h_def)
  have k: "0 \<le> real k" "2 * real k * h \<le> 1"
    using Suc.prems by (simp_all add: h_def)
  have ih: "(1 - 2 * h) ^ k \<le> 1 - real k * h"
    using Suc by (simp add: h_def)
  have "(1 - 2 * h) ^ Suc k = (1 - 2 * h) ^ k * (1 - 2 * h)"
    by simp
  also have "\<dots> \<le> (1 - real k * h) * (1 - 2 * h)"
    using ih h(2) by (rule mult_right_mono)
  also have "\<dots> = 1 - (real k + 1) * h - h * (1 - 2 * real k * h)"
    by (simp add: algebra_simps)
  also have "\<dots> \<le> 1 - (real k + 1) * h"
    using h k by simp
  finally have "(1 - 2 * h) ^ Suc k \<le> 1 - (real k + 1) * h" .
  then show ?case
    unfolding u by (simp add: h_def add.commute)
qed

lemma error_near:
  assumes e: "\<bar>v - z\<bar> \<le> real k * z / 2 ^ 25" and z: "0 \<le> z" and k: "real k \<le> 2 ^ 24"
  shows "near k z v"
proof -
  define d :: real where "d = (1 - 1 / 2 ^ 24) ^ k"
  define c :: real where "c = real k * z / 2 ^ 25"
  have d: "0 \<le> d" "d \<le> 1 - real k / 2 ^ 25" "d * (1 + real k / 2 ^ 24) \<le> 1"
    using dk_pos [of k] dk_half [OF k] dk_upper [of k] by (simp_all add: d_def)
  have c: "0 \<le> c"
    using z by (simp add: c_def)
  have "z * d \<le> z * (1 - real k / 2 ^ 25)"
    using d(2) z by (rule mult_left_mono)
  also have "\<dots> = z - c"
    by (simp add: c_def algebra_simps)
  finally have one: "z * d \<le> v"
    using e unfolding c_def [symmetric] by linarith
  have "v \<le> z + c"
    using e unfolding c_def [symmetric] by linarith
  also have "\<dots> \<le> z + 2 * c"
    using c by simp
  also have "\<dots> = z * (1 + real k / 2 ^ 24)"
    by (simp add: c_def algebra_simps)
  finally have "v * d \<le> z * (1 + real k / 2 ^ 24) * d"
    using d(1) by (rule mult_right_mono)
  also have "\<dots> = z * (d * (1 + real k / 2 ^ 24))"
    by simp
  also have "\<dots> \<le> z * 1"
    using d(3) z by (rule mult_left_mono)
  finally show ?thesis
    using one by (simp add: near_def d_def)
qed

lemma near_error:
  assumes "near k z v" "k \<le> 12" "0 \<le> z" "0 \<le> v"
  shows "\<bar>v - z\<bar> \<le> z / 2 ^ 20"
proof -
  have w: "near 12 z v"
    using assms by (rule near_mono)
  have twelve: "1 - 12 / 2 ^ 24 \<le> (1 - 1 / 2 ^ 24 :: real) ^ 12"
    using dk_lower [of 12] by simp
  then have "z * (1 - 1 / 2 ^ 20) \<le> z * (1 - 1 / 2 ^ 24) ^ 12"
    using assms(3) by (intro mult_left_mono) simp_all
  with w have lo: "z - z / 2 ^ 20 \<le> v"
    unfolding near_def by (simp add: algebra_simps)
  have "(1::real) \<le> (1 + 1 / 2 ^ 20) * (1 - 12 / 2 ^ 24)"
    by simp
  also have "\<dots> \<le> (1 + 1 / 2 ^ 20) * (1 - 1 / 2 ^ 24) ^ 12"
    using twelve by (intro mult_left_mono) simp_all
  finally have "v * 1 \<le> v * ((1 + 1 / 2 ^ 20) * (1 - 1 / 2 ^ 24) ^ 12)"
    using assms(4) by (intro mult_left_mono)
  then have "v \<le> (v * (1 - 1 / 2 ^ 24) ^ 12) * (1 + 1 / 2 ^ 20)"
    by (simp add: mult.assoc mult.commute)
  also have "\<dots> \<le> z * (1 + 1 / 2 ^ 20)"
    using w unfolding near_def by (intro mult_right_mono) simp_all
  finally have "v \<le> z + z / 2 ^ 20"
    by (simp add: algebra_simps)
  with lo show ?thesis
    by linarith
qed

lemma rounds_to_error:
  assumes "rounds_to z r"
  shows "\<bar>valof r - z\<bar> \<le> \<bar>z\<bar> / 2 ^ 24 + 1 / 2 ^ 150"
proof -
  have "max (\<bar>z\<bar> / 2 ^ 24) (1 / 2 ^ 150) \<le> \<bar>z\<bar> / 2 ^ 24 + 1 / 2 ^ 150"
    by (rule max.boundedI) simp_all
  with assms show ?thesis
    unfolding rounds_to_def by linarith
qed

lemma rounds_to_lower:
  assumes r: "rounds_to z r" and z: "0 \<le> z" and w: "1 / 2 ^ 150 \<le> w"
    and big: "2 * w \<le> valof r"
  shows "w \<le> z"
proof (rule ccontr)
  assume "\<not> w \<le> z"
  then have less: "z < w" by simp
  have "\<bar>z\<bar> / 2 ^ 24 \<le> w"
    using z less by simp
  then have "max (\<bar>z\<bar> / 2 ^ 24) (1 / 2 ^ 150) \<le> w"
    using w by (rule max.boundedI)
  with r have "\<bar>valof r - z\<bar> \<le> w"
    unfolding rounds_to_def by linarith
  with less big show False
    by linarith
qed

lemma rounds_to_positive:
  assumes "rounds_to z r" "1 / 2 ^ 126 \<le> z"
  shows "near 1 z (valof r) \<and> 0 < valof r"
proof -
  have big: "1 / 2 ^ 126 \<le> \<bar>z\<bar>"
    using assms(2) by simp
  have "(0::real) < 1 / 2 ^ 126"
    by simp
  with assms(2) have z: "0 < z"
    by linarith
  have pos: "0 < valof r"
    using rounds_to_sign [OF assms(1) big] z by simp
  have "near 1 \<bar>z\<bar> \<bar>valof r\<bar>"
    using assms(1) big by (rule rounds_to_within)
  then show ?thesis
    using z pos by simp
qed

lemma fadd_zero:
  assumes "is_finite a" "is_finite b" "valof a = 0" "valof b = 0"
  shows "is_finite (fadd a b) \<and> valof (fadd a b) = 0"
proof -
  obtain s m e where a: "a = Finite s m e" using assms(1) by (cases a) auto
  obtain t n f where b: "b = Finite t n f" using assms(2) by (cases b) auto
  from assms(3,4) have "m = 0" "n = 0"
    unfolding a b valof_zero_iff by simp_all
  then have "fadd a b = Finite (s \<and> t) 0 (- 149)"
    by (simp add: a b signed_def)
  then show ?thesis by simp
qed

lemma fsqrt_zero:
  assumes "is_finite a" "valof a = 0"
  shows "is_finite (fsqrt a) \<and> valof (fsqrt a) = 0"
proof -
  obtain s m e where a: "a = Finite s m e" using assms(1) by (cases a) auto
  from assms(2) have "m = 0"
    unfolding a valof_zero_iff .
  then show ?thesis by (simp add: a)
qed

lemma Length_zero:
  assumes "is_finite (x v)" "is_finite (y v)" "valof (x v) = 0" "valof (y v) = 0"
  shows "is_finite (Length v) \<and> valof (Length v) = 0"
proof -
  have "is_finite (fmul (x v) (x v)) \<and> valof (fmul (x v) (x v)) = 0"
    using assms by (intro fmul_zero) simp_all
  moreover have "is_finite (fmul (y v) (y v)) \<and> valof (fmul (y v) (y v)) = 0"
    using assms by (intro fmul_zero) simp_all
  ultimately have "is_finite (fadd (fmul (x v) (x v)) (fmul (y v) (y v))) \<and>
      valof (fadd (fmul (x v) (x v)) (fmul (y v) (y v))) = 0"
    by (intro fadd_zero) simp_all
  then show ?thesis
    unfolding Length_def Sqrt_def by (intro fsqrt_zero) simp_all
qed

text \<open>
  The length is computed with four roundings. The squares may underflow, which adds
  an absolute error of \<open>2 ^ -150\<close> each; this is negligible once the sum of the squares
  is at least \<open>2 ^ -124\<close>. \<open>Length_backward\<close> reads the accuracy off a finite computed
  length that is not tiny, \<open>Length_forward\<close> off the exact length.
\<close>

lemma abs_le_D:
  fixes x y e :: real
  assumes "\<bar>x - y\<bar> \<le> e"
  shows "x \<le> y + e" "y \<le> x + e"
  using assms by linarith+

lemma sqrt_ge_D:
  fixes w c :: real
  assumes "w \<le> sqrt c" "0 \<le> w" "0 \<le> c"
  shows "w * w \<le> c"
proof -
  have "w * w \<le> sqrt c * sqrt c"
    using assms by (intro mult_mono) simp_all
  then show ?thesis
    using assms(3) by simp
qed

lemma sum_squares_near:
  fixes a b P Q :: real
  assumes ra: "\<bar>a - P\<bar> \<le> \<bar>P\<bar> / 2 ^ 24 + 1 / 2 ^ 150"
    and rb: "\<bar>b - Q\<bar> \<le> \<bar>Q\<bar> / 2 ^ 24 + 1 / 2 ^ 150"
    and P: "0 \<le> P" and Q: "0 \<le> Q"
    and S: "1 / 2 ^ 124 \<le> P + Q"
  shows "near 3 (P + Q) (a + b) \<and> 1 / 2 ^ 125 \<le> a + b \<and> a + b \<le> 9 / 8 * (P + Q)"
proof -
  define S' where "S' = P + Q"
  have S': "1 / 2 ^ 124 \<le> S'"
    using S by (simp add: S'_def)
  have abs: "\<bar>P\<bar> = P" "\<bar>Q\<bar> = Q"
    using P Q by simp_all
  have "\<bar>(a + b) - S'\<bar> \<le> S' / 2 ^ 24 + 2 / 2 ^ 150"
    using ra rb unfolding abs S'_def by (simp add: add_divide_distrib)
  moreover have "2 / 2 ^ 150 \<le> S' / 2 ^ 25"
    using S' by simp
  ultimately have e: "\<bar>(a + b) - S'\<bar> \<le> 3 * S' / 2 ^ 25"
    by simp
  have pos: "0 \<le> S'"
    using P Q by (simp add: S'_def)
  have "\<bar>(a + b) - S'\<bar> \<le> real 3 * S' / 2 ^ 25"
    using e by simp
  then have "near 3 S' (a + b)"
    using pos by (rule error_near) simp
  moreover have "S' / 2 \<le> a + b" "a + b \<le> 9 / 8 * S'"
    using abs_le_D [OF e] pos by simp_all
  ultimately show ?thesis
    using S' unfolding S'_def by simp
qed

lemma sum_rounds_near:
  assumes n: "near 3 S ab" and rc: "rounds_to ab C"
    and S: "0 \<le> S" and ab: "1 / 2 ^ 125 \<le> ab"
  shows "near 4 S (valof C) \<and> 1 / 2 ^ 126 \<le> valof C \<and> valof C \<le> 2 * ab"
proof -
  have "1 / 2 ^ 126 \<le> ab"
    using ab by simp
  then have c: "near 1 ab (valof C)" "0 < valof C"
    using rounds_to_positive [OF rc] by simp_all
  have n4: "near 4 S (valof C)"
    using n c(1) by (rule near_trans_eq) simp
  have "(0::real) < 1 / 2 ^ 125"
    by simp
  with ab have "0 \<le> ab"
    by linarith
  then have "ab / 2 \<le> valof C \<and> valof C / 2 \<le> ab"
    using c by (intro near_half [of 1]) simp_all
  then show ?thesis
    using n4 ab by simp
qed

lemma root_rounds_near:
  assumes n: "near 4 S c" and rl: "rounds_to (sqrt c) L"
    and S: "0 \<le> S" and c: "1 / 2 ^ 126 \<le> c"
  shows "near 3 (sqrt S) (valof L) \<and> 0 < valof L"
proof -
  have "(0::real) < 1 / 2 ^ 126"
    by simp
  with c have cpos: "0 \<le> c"
    by linarith
  have "(1 / 2 ^ 63)\<^sup>2 \<le> c"
    using c by (simp add: power2_eq_square)
  then have "1 / 2 ^ 63 \<le> sqrt c"
    by (rule real_le_rsqrt)
  then have "1 / 2 ^ 126 \<le> sqrt c"
    by simp
  then have l: "near 1 (sqrt c) (valof L)" "0 < valof L"
    using rounds_to_positive [OF rl] by simp_all
  have "near (2 + 2) S c"
    using n by simp
  then have "near 2 (sqrt S) (sqrt c)"
    using S cpos by (rule near_sqrt)
  then have "near 3 (sqrt S) (valof L)"
    using l(1) by (rule near_trans_eq) simp
  with l(2) show ?thesis
    by simp
qed

lemma norm2_square: "norm2 v * norm2 v = valof (x v) * valof (x v) + valof (y v) * valof (y v)"
  by (simp add: norm2_def)

lemma norm2_nonneg: "0 \<le> norm2 v"
  by (simp add: norm2_def)

lemma component_le_norm2: "\<bar>valof (x v)\<bar> \<le> norm2 v" "\<bar>valof (y v)\<bar> \<le> norm2 v"
proof -
  have "sqrt (valof (x v) * valof (x v)) \<le> norm2 v"
    unfolding norm2_def by (rule real_sqrt_le_mono) simp
  then show "\<bar>valof (x v)\<bar> \<le> norm2 v"
    by simp
  have "sqrt (valof (y v) * valof (y v)) \<le> norm2 v"
    unfolding norm2_def by (rule real_sqrt_le_mono) simp
  then show "\<bar>valof (y v)\<bar> \<le> norm2 v"
    by simp
qed

lemma Length_parts:
  assumes "is_finite (Length v)"
  shows "is_finite (x v)" "is_finite (y v)"
    "rounds_to (valof (x v) * valof (x v)) (fmul (x v) (x v))"
    "rounds_to (valof (y v) * valof (y v)) (fmul (y v) (y v))"
    "rounds_to (valof (fmul (x v) (x v)) + valof (fmul (y v) (y v)))
       (fadd (fmul (x v) (x v)) (fmul (y v) (y v)))"
    "0 \<le> valof (fadd (fmul (x v) (x v)) (fmul (y v) (y v)))"
    "valof (fadd (fmul (x v) (x v)) (fmul (y v) (y v))) < 2 ^ 128"
    "rounds_to (sqrt (valof (fadd (fmul (x v) (x v)) (fmul (y v) (y v))))) (Length v)"
    "0 \<le> valof (Length v)"
proof -
  define A B where "A = fmul (x v) (x v)" and "B = fmul (y v) (y v)"
  define C where "C = fadd A B"
  have L: "Length v = fsqrt C"
    by (simp add: Length_def Sqrt_def C_def A_def B_def)
  have "is_finite (fsqrt C)"
    using assms by (simp only: L)
  note s = fsqrt_finite [OF this]
  have "is_finite (fadd A B)"
    using s by (simp add: C_def)
  note c = fadd_finite [OF this]
  have fA: "is_finite (fmul (x v) (x v))" and fB: "is_finite (fmul (y v) (y v))"
    using c by (simp_all add: A_def B_def)
  note a = fmul_finite [OF fA] and b = fmul_finite [OF fB]
  show "is_finite (x v)" "is_finite (y v)"
    using a b by simp_all
  show "rounds_to (valof (x v) * valof (x v)) (fmul (x v) (x v))"
    "rounds_to (valof (y v) * valof (y v)) (fmul (y v) (y v))"
    using a b by simp_all
  show "rounds_to (valof (fmul (x v) (x v)) + valof (fmul (y v) (y v)))
       (fadd (fmul (x v) (x v)) (fmul (y v) (y v)))"
    using c by (simp add: A_def B_def)
  show "0 \<le> valof (fadd (fmul (x v) (x v)) (fmul (y v) (y v)))"
    using s by (simp add: C_def A_def B_def)
  have "\<bar>valof (fadd A B)\<bar> < 2 ^ 128"
    using c by simp
  then show "valof (fadd (fmul (x v) (x v)) (fmul (y v) (y v))) < 2 ^ 128"
    unfolding A_def B_def by linarith
  show "rounds_to (sqrt (valof (fadd (fmul (x v) (x v)) (fmul (y v) (y v))))) (Length v)"
    using s unfolding L by (simp add: C_def A_def B_def)
  show "0 \<le> valof (Length v)"
    using s unfolding L by simp
qed

lemma Length_upper:
  assumes "is_finite (Length v)"
  shows "valof (Length v) \<le> 2 ^ 65"
proof -
  define c where "c = valof (fadd (fmul (x v) (x v)) (fmul (y v) (y v)))"
  note p = Length_parts [OF assms, folded c_def]
  have "c < (2 ^ 64)\<^sup>2"
    using p(7) by simp
  then have "sqrt c < 2 ^ 64"
    by (intro real_less_lsqrt) simp_all
  moreover have "0 \<le> sqrt c"
    using p(6) by simp
  moreover have "\<bar>valof (Length v) - sqrt c\<bar> \<le> \<bar>sqrt c\<bar> / 2 ^ 24 + 1 / 2 ^ 150"
    using p(8) by (rule rounds_to_error)
  ultimately show ?thesis
    by simp
qed

lemma Length_backward:
  assumes fin: "is_finite (Length v)" and low: "1 / 2 ^ 60 \<le> valof (Length v)"
  shows "near 3 (norm2 v) (valof (Length v))"
proof -
  define P Q where "P = valof (x v) * valof (x v)" and "Q = valof (y v) * valof (y v)"
  define a b where "a = valof (fmul (x v) (x v))" and "b = valof (fmul (y v) (y v))"
  define C where "C = fadd (fmul (x v) (x v)) (fmul (y v) (y v))"
  define c where "c = valof C"
  note p = Length_parts [OF fin, folded P_def Q_def a_def b_def C_def, folded c_def]
  have PQ: "0 \<le> P" "0 \<le> Q"
    by (simp_all add: P_def Q_def)
  have ab: "0 \<le> a" "0 \<le> b"
    unfolding a_def b_def by (rule fmul_self_nonneg)+
  have r0: "0 \<le> sqrt c"
    using p(6) by simp
  have r1: "(1::real) / 2 ^ 150 \<le> 1 / 2 ^ 61"
    by simp
  have r2: "2 * (1 / 2 ^ 61) \<le> valof (Length v)"
    using low by simp
  have r3: "(0::real) \<le> 1 / 2 ^ 61"
    by simp
  have "1 / 2 ^ 61 \<le> sqrt c"
    using p(8) r0 r1 r2 by (rule rounds_to_lower)
  then have "(1 / 2 ^ 61) * (1 / 2 ^ 61) \<le> c"
    using r3 p(6) by (rule sqrt_ge_D)
  then have c: "2 * (1 / 2 ^ 123) \<le> c"
    by simp
  have s0: "0 \<le> a + b"
    using ab by simp
  have s1: "(1::real) / 2 ^ 150 \<le> 1 / 2 ^ 123"
    by simp
  have sum: "1 / 2 ^ 123 \<le> a + b"
    using p(5) s0 s1 c unfolding c_def by (rule rounds_to_lower)
  have ea: "\<bar>a - P\<bar> \<le> \<bar>P\<bar> / 2 ^ 24 + 1 / 2 ^ 150"
    unfolding a_def using p(3) by (rule rounds_to_error)
  have eb: "\<bar>b - Q\<bar> \<le> \<bar>Q\<bar> / 2 ^ 24 + 1 / 2 ^ 150"
    unfolding b_def using p(4) by (rule rounds_to_error)
  have abs: "\<bar>P\<bar> = P" "\<bar>Q\<bar> = Q"
    using PQ by simp_all
  have S: "1 / 2 ^ 124 \<le> P + Q"
    using abs_le_D(1) [OF ea [unfolded abs]] abs_le_D(1) [OF eb [unfolded abs]] sum by simp
  note one = sum_squares_near [OF ea eb PQ S]
  have n3: "near 3 (P + Q) (a + b)" and lo: "1 / 2 ^ 125 \<le> a + b"
    using one by simp_all
  have S0: "0 \<le> P + Q"
    using PQ by simp
  note two = sum_rounds_near [OF n3 p(5) S0 lo]
  have n4: "near 4 (P + Q) c" and clo: "1 / 2 ^ 126 \<le> c"
    using two by (simp_all add: c_def)
  have "near 3 (sqrt (P + Q)) (valof (Length v))"
    using root_rounds_near [OF n4 p(8) S0 clo] by simp
  then show ?thesis
    by (simp add: norm2_def P_def Q_def)
qed

lemma Length_forward:
  assumes fx: "is_finite (x v)" and fy: "is_finite (y v)"
    and lo: "1 / 2 ^ 62 \<le> norm2 v" and hi: "norm2 v \<le> 2 ^ 63 + 2 ^ 43"
  shows "is_finite (Length v) \<and> near 3 (norm2 v) (valof (Length v))"
proof -
  define P Q where "P = valof (x v) * valof (x v)" and "Q = valof (y v) * valof (y v)"
  define A B where "A = fmul (x v) (x v)" and "B = fmul (y v) (y v)"
  define a b where "a = valof A" and "b = valof B"
  define C where "C = fadd A B"
  define c where "c = valof C"
  have PQ: "0 \<le> P" "0 \<le> Q"
    by (simp_all add: P_def Q_def)
  have ab: "0 \<le> a" "0 \<le> b"
    unfolding a_def b_def A_def B_def by (rule fmul_self_nonneg)+
  have sq: "norm2 v * norm2 v = P + Q"
    by (simp add: norm2_square P_def Q_def)
  have "(1 / 2 ^ 62) * (1 / 2 ^ 62) \<le> norm2 v * norm2 v"
    using lo by (intro mult_mono) simp_all
  then have S: "1 / 2 ^ 124 \<le> P + Q"
    unfolding sq by simp
  have "norm2 v * norm2 v \<le> (2 ^ 63 + 2 ^ 43) * (2 ^ 63 + 2 ^ 43)"
    using hi norm2_nonneg [of v] by (intro mult_mono) simp_all
  then have S_hi: "P + Q \<le> 3 * 2 ^ 125"
    unfolding sq by simp
  have "P < 2 ^ 127" "Q < 2 ^ 127"
    using S_hi PQ by simp_all
  then have "\<bar>P\<bar> < 2 ^ 127" "\<bar>Q\<bar> < 2 ^ 127"
    using PQ by simp_all
  then have "\<bar>valof (x v) * valof (x v)\<bar> < 2 ^ 127" "\<bar>valof (y v) * valof (y v)\<bar> < 2 ^ 127"
    unfolding P_def Q_def .
  then have ra: "rounds_to P A" and rb: "rounds_to Q B"
    unfolding P_def Q_def A_def B_def using fx fy by (simp_all add: fmul_rounds)
  have ea: "\<bar>a - P\<bar> \<le> \<bar>P\<bar> / 2 ^ 24 + 1 / 2 ^ 150"
    unfolding a_def using ra by (rule rounds_to_error)
  have eb: "\<bar>b - Q\<bar> \<le> \<bar>Q\<bar> / 2 ^ 24 + 1 / 2 ^ 150"
    unfolding b_def using rb by (rule rounds_to_error)
  note one = sum_squares_near [OF ea eb PQ S]
  have n3: "near 3 (P + Q) (a + b)" and lo: "1 / 2 ^ 125 \<le> a + b"
    and up: "a + b \<le> 9 / 8 * (P + Q)"
    using one by simp_all
  have "\<bar>valof A + valof B\<bar> < 2 ^ 127"
    using up S_hi ab unfolding a_def b_def by simp
  then have rc: "rounds_to (a + b) C"
    unfolding a_def b_def C_def using ra rb by (intro fadd_rounds) (simp_all add: rounds_to_def)
  have S0: "0 \<le> P + Q"
    using PQ by simp
  note two = sum_rounds_near [OF n3 rc S0 lo]
  have n4: "near 4 (P + Q) c" and clo: "1 / 2 ^ 126 \<le> c" and chi: "c \<le> 2 * (a + b)"
    using two by (simp_all add: c_def)
  have "(0::real) < 1 / 2 ^ 126"
    by simp
  with clo have cpos: "0 \<le> c"
    by linarith
  have "c < (2 ^ 127)\<^sup>2"
    using chi up S_hi by simp
  then have "sqrt c < 2 ^ 127"
    by (intro real_less_lsqrt) simp_all
  then have rl: "rounds_to (sqrt c) (fsqrt C)"
    unfolding c_def using rc cpos by (intro fsqrt_rounds) (simp_all add: rounds_to_def c_def)
  have "near 3 (sqrt (P + Q)) (valof (fsqrt C))"
    using root_rounds_near [OF n4 rl S0 clo] by simp
  moreover have "Length v = fsqrt C"
    by (simp add: Length_def Sqrt_def C_def A_def B_def)
  moreover have "is_finite (fsqrt C)"
    using rl by (simp add: rounds_to_def)
  ultimately show ?thesis
    by (simp add: norm2_def P_def Q_def)
qed

text \<open>
  Scaling both components by a non-negative factor scales the exact length by that
  factor, up to the two roundings.
\<close>

lemma norm_perturb:
  fixes a b p q :: real
  shows "\<bar>sqrt (p * p + q * q) - sqrt (a * a + b * b)\<bar> \<le> \<bar>p - a\<bar> + \<bar>q - b\<bar>"
proof -
  have "sqrt ((a + (p - a))\<^sup>2 + (b + (q - b))\<^sup>2) \<le>
      sqrt (a\<^sup>2 + b\<^sup>2) + sqrt ((p - a)\<^sup>2 + (q - b)\<^sup>2)"
    by (rule real_sqrt_sum_squares_triangle_ineq)
  moreover have "sqrt ((p + (a - p))\<^sup>2 + (q + (b - q))\<^sup>2) \<le>
      sqrt (p\<^sup>2 + q\<^sup>2) + sqrt ((a - p)\<^sup>2 + (b - q)\<^sup>2)"
    by (rule real_sqrt_sum_squares_triangle_ineq)
  moreover have "sqrt ((p - a)\<^sup>2 + (q - b)\<^sup>2) \<le> \<bar>p - a\<bar> + \<bar>q - b\<bar>"
    by (rule sqrt_sum_squares_le_sum_abs)
  moreover have "sqrt ((a - p)\<^sup>2 + (b - q)\<^sup>2) \<le> \<bar>a - p\<bar> + \<bar>b - q\<bar>"
    by (rule sqrt_sum_squares_le_sum_abs)
  ultimately show ?thesis
    by (simp add: power2_eq_square)
qed

lemma norm_scale:
  fixes X Y T :: real
  assumes "0 \<le> T"
  shows "sqrt ((X * T) * (X * T) + (Y * T) * (Y * T)) = sqrt (X * X + Y * Y) * T"
proof -
  have "(X * T) * (X * T) + (Y * T) * (Y * T) = (X * X + Y * Y) * (T * T)"
    by (simp add: algebra_simps)
  then show ?thesis
    using assms by (simp add: real_sqrt_mult)
qed

lemma scaled_norm:
  assumes fx: "is_finite (x v)" and fy: "is_finite (y v)" and ft: "is_finite t"
    and T: "0 \<le> valof t"
    and lo: "1 / 2 ^ 124 \<le> norm2 v * valof t" and hi: "norm2 v * valof t \<le> 2 ^ 126"
  shows "is_finite (x (op_mul_assign v t))" "is_finite (y (op_mul_assign v t))"
    "near 5 (norm2 v * valof t) (norm2 (op_mul_assign v t))"
    "\<bar>valof (x (op_mul_assign v t)) - valof (x v) * valof t\<bar> \<le> norm2 v * valof t / 2 ^ 23"
    "\<bar>valof (y (op_mul_assign v t)) - valof (y v) * valof t\<bar> \<le> norm2 v * valof t / 2 ^ 23"
proof -
  define w where "w = op_mul_assign v t"
  define M where "M = norm2 v * valof t"
  have xw: "x w = fmul (x v) t" and yw: "y w = fmul (y v) t"
    by (simp_all add: w_def op_mul_assign_def Let_def)
  have M: "1 / 2 ^ 124 \<le> M" "M \<le> 2 ^ 126"
    using lo hi by (simp_all add: M_def)
  have comp: "is_finite (fmul c t) \<and> \<bar>valof (fmul c t) - valof c * valof t\<bar>
      \<le> M / 2 ^ 24 + 1 / 2 ^ 150"
    if c: "is_finite c" "\<bar>valof c\<bar> \<le> norm2 v" for c
  proof -
    have "\<bar>valof c\<bar> * valof t \<le> norm2 v * valof t"
      using c(2) T by (rule mult_right_mono)
    then have le: "\<bar>valof c * valof t\<bar> \<le> M"
      using T by (simp add: abs_mult M_def)
    then have "\<bar>valof c * valof t\<bar> < 2 ^ 127"
      using M(2) by simp
    then have r: "rounds_to (valof c * valof t) (fmul c t)"
      using c(1) ft by (intro fmul_rounds)
    have "\<bar>valof (fmul c t) - valof c * valof t\<bar>
        \<le> \<bar>valof c * valof t\<bar> / 2 ^ 24 + 1 / 2 ^ 150"
      using r by (rule rounds_to_error)
    with le have "\<bar>valof (fmul c t) - valof c * valof t\<bar> \<le> M / 2 ^ 24 + 1 / 2 ^ 150"
      by simp
    with r show ?thesis
      by (simp add: rounds_to_def)
  qed
  note cx = comp [OF fx component_le_norm2(1)] and cy = comp [OF fy component_le_norm2(2)]
  show "is_finite (x (op_mul_assign v t))" "is_finite (y (op_mul_assign v t))"
    using cx cy unfolding w_def [symmetric] xw yw by simp_all
  have small: "1 / 2 ^ 150 \<le> M / 2 ^ 26"
    using M(1) by simp
  show "\<bar>valof (x (op_mul_assign v t)) - valof (x v) * valof t\<bar> \<le> norm2 v * valof t / 2 ^ 23"
    "\<bar>valof (y (op_mul_assign v t)) - valof (y v) * valof t\<bar> \<le> norm2 v * valof t / 2 ^ 23"
    using cx cy small M(1) unfolding w_def [symmetric] xw yw M_def [symmetric] by simp_all
  have "norm2 w = sqrt (valof (fmul (x v) t) * valof (fmul (x v) t) +
      valof (fmul (y v) t) * valof (fmul (y v) t))"
    by (simp add: norm2_def xw yw)
  moreover have "M = sqrt ((valof (x v) * valof t) * (valof (x v) * valof t) +
      (valof (y v) * valof t) * (valof (y v) * valof t))"
    unfolding M_def norm2_def using T by (rule norm_scale [symmetric])
  ultimately have "\<bar>norm2 w - M\<bar> \<le>
      \<bar>valof (fmul (x v) t) - valof (x v) * valof t\<bar> +
      \<bar>valof (fmul (y v) t) - valof (y v) * valof t\<bar>"
    by (simp only: norm_perturb)
  then have "\<bar>norm2 w - M\<bar> \<le> 5 * M / 2 ^ 25"
    using cx cy small by simp
  then have "\<bar>norm2 w - M\<bar> \<le> real 5 * M / 2 ^ 25"
    by simp
  moreover have "0 \<le> M"
    using T norm2_nonneg [of v] by (simp add: M_def)
  ultimately have "near 5 M (norm2 w)"
    by (rule error_near) simp
  then show "near 5 (norm2 v * valof t) (norm2 (op_mul_assign v t))"
    by (simp only: M_def w_def)
qed

lemma rescaled_Length:
  assumes fin: "is_finite (Length v)" and fn: "is_finite n"
    and low: "1 / 2 ^ 60 \<le> valof (Length v)"
    and n: "1 / 2 ^ 60 \<le> valof n" "valof n \<le> 2 ^ 63"
    and ratio: "valof n \<le> 2 ^ 24 * valof (Length v)"
  shows "is_finite (Length (op_mul_assign v (fdiv n (Length v))))"
    "\<bar>valof (Length (op_mul_assign v (fdiv n (Length v)))) - valof n\<bar> \<le> valof n / 2 ^ 20"
    "\<bar>valof (x (op_mul_assign v (fdiv n (Length v)))) - valof (x v) * (valof n / norm2 v)\<bar>
       \<le> valof n / 2 ^ 20"
    "\<bar>valof (y (op_mul_assign v (fdiv n (Length v)))) - valof (y v) * (valof n / norm2 v)\<bar>
       \<le> valof n / 2 ^ 20"
proof -
  define l N s where "l = valof (Length v)" and "N = norm2 v" and "s = valof n"
  define t where "t = fdiv n (Length v)"
  define T where "T = valof t"
  define w where "w = op_mul_assign v t"
  define N' where "N' = norm2 w"
  have fx: "is_finite (x v)" and fy: "is_finite (y v)"
    using Length_parts(1,2) [OF fin] by simp_all
  have l_hi: "l \<le> 2 ^ 65"
    unfolding l_def using fin by (rule Length_upper)
  have l_lo: "1 / 2 ^ 60 \<le> l"
    using low by (simp add: l_def)
  have "(0::real) < 1 / 2 ^ 60"
    by simp
  then have l_pos: "0 < l" and s_pos: "0 < s"
    using l_lo n(1) unfolding s_def by linarith+
  have n3: "near 3 N l"
    unfolding N_def l_def using fin low by (rule Length_backward)
  have N0: "0 \<le> N"
    unfolding N_def by (rule norm2_nonneg)
  have "N / 2 \<le> l \<and> l / 2 \<le> N"
    using n3 _ N0 by (rule near_half) (use l_pos in simp_all)
  then have N_pos: "0 < N"
    using l_pos by linarith
  have "(1 / 2 ^ 60) / 2 ^ 65 \<le> s / l"
    using n(1) l_pos l_hi s_pos unfolding s_def [symmetric] by (intro frac_le) simp_all
  moreover have "(1::real) / 2 ^ 126 \<le> (1 / 2 ^ 60) / 2 ^ 65"
    by simp
  ultimately have q_lo: "1 / 2 ^ 126 \<le> s / l"
    by (rule order_trans [rotated])
  have q_hi: "s / l \<le> 2 ^ 24"
    using ratio l_pos unfolding s_def [symmetric] l_def [symmetric]
    by (simp add: pos_divide_le_eq)
  have "\<bar>s / l\<bar> = s / l"
    using s_pos l_pos by simp
  moreover have "(2::real) ^ 24 < 2 ^ 127"
    by simp
  ultimately have "\<bar>s / l\<bar> < 2 ^ 127"
    using q_hi by linarith
  then have "\<bar>valof n / valof (Length v)\<bar> < 2 ^ 127"
    unfolding s_def l_def .
  then have rt: "rounds_to (s / l) t"
    unfolding s_def l_def t_def using fn fin l_pos
    by (intro fdiv_rounds) (simp_all add: l_def)
  have ft: "is_finite t"
    using rt by (simp add: rounds_to_def)
  have nt: "near 1 (s / l) T" and T_pos: "0 < T"
    using rounds_to_positive [OF rt q_lo] by (simp_all add: T_def)
  have "near 3 (1 / N) (1 / l)"
    using n3 N_pos l_pos by (rule near_inverse)
  then have "near 3 (s * (1 / N)) (s * (1 / l))"
    using s_pos N_pos l_pos by (intro near_scale) simp_all
  then have "near 3 (s / N) (s / l)"
    by simp
  then have n4: "near 4 (s / N) T"
    using nt by (rule near_trans_eq) simp
  have q0: "0 \<le> s / N"
    using s_pos N_pos by simp
  have "near 4 (N * (s / N)) (N * T)"
    using n4 N0 q0 by (rule near_scale) (use T_pos in simp)
  then have nM: "near 4 s (N * T)"
    using N_pos by simp
  have M0: "0 \<le> N * T"
    using N0 T_pos by simp
  have "\<bar>N * T - s\<bar> \<le> s / 2 ^ 20"
    using nM _ _ M0 by (rule near_error) (use s_pos in simp_all)
  note M = abs_le_D [OF this]
  have s_range: "1 / 2 ^ 60 \<le> s" "s \<le> 2 ^ 63"
    using n by (simp_all add: s_def)
  have M_lo: "1 / 2 ^ 124 \<le> N * T" and M_hi: "N * T \<le> 2 ^ 126"
    and M_s: "N * T \<le> 2 * s"
    using M s_range by simp_all
  note sc = scaled_norm [OF fx fy ft, folded T_def N_def, OF less_imp_le [OF T_pos] M_lo M_hi,
      folded w_def, folded N'_def]
  have n9: "near 9 s N'"
    using nM sc(3) by (rule near_trans_eq) simp
  have "0 \<le> N'"
    unfolding N'_def by (rule norm2_nonneg)
  then have "\<bar>N' - s\<bar> \<le> s / 2 ^ 20"
    using n9 s_pos by (intro near_error [of 9]) simp_all
  note B = abs_le_D [OF this]
  have "1 / 2 ^ 62 \<le> norm2 w" "norm2 w \<le> 2 ^ 63 + 2 ^ 43"
    using B s_range unfolding N'_def by simp_all
  note Lw = Length_forward [OF sc(1,2) this, folded N'_def]
  have fL: "is_finite (Length w)" and n3': "near 3 N' (valof (Length w))"
    using Lw by simp_all
  have n12: "near 12 s (valof (Length w))"
    using n9 n3' by (rule near_trans_eq) simp
  have "0 < valof (Length w)"
    using n12 s_pos by (rule near_pos)
  then have len: "\<bar>valof (Length w) - s\<bar> \<le> s / 2 ^ 20"
    using n12 s_pos by (intro near_error [of 12]) simp_all
  have "\<bar>T - s / N\<bar> \<le> (s / N) / 2 ^ 21"
    using n4 _ q0 by (rule near_final) (use T_pos in simp_all)
  then have "N * \<bar>T - s / N\<bar> \<le> N * ((s / N) / 2 ^ 21)"
    using N0 by (rule mult_left_mono)
  then have T_err: "N * \<bar>T - s / N\<bar> \<le> s / 2 ^ 21"
    using N_pos by simp
  have comp: "\<bar>c' - c * (s / N)\<bar> \<le> s / 2 ^ 20"
    if c: "\<bar>c\<bar> \<le> N" and c': "\<bar>c' - c * T\<bar> \<le> N * T / 2 ^ 23" for c c' :: real
  proof -
    have "\<bar>c * T - c * (s / N)\<bar> = \<bar>c\<bar> * \<bar>T - s / N\<bar>"
      by (simp add: abs_mult [symmetric] algebra_simps)
    also have "\<dots> \<le> N * \<bar>T - s / N\<bar>"
      using c by (rule mult_right_mono) simp
    finally have "\<bar>c * T - c * (s / N)\<bar> \<le> s / 2 ^ 21"
      using T_err by linarith
    moreover have "\<bar>c' - c * T\<bar> \<le> s / 2 ^ 22"
      using c' M_s by simp
    moreover have "s / 2 ^ 21 + s / 2 ^ 22 \<le> s / 2 ^ 20"
      using s_pos by simp
    ultimately show ?thesis
      by linarith
  qed
  have cx: "\<bar>valof (x w) - valof (x v) * (s / N)\<bar> \<le> s / 2 ^ 20"
    using component_le_norm2(1) [of v, folded N_def] sc(4) by (rule comp)
  have cy: "\<bar>valof (y w) - valof (y v) * (s / N)\<bar> \<le> s / 2 ^ 20"
    using component_le_norm2(2) [of v, folded N_def] sc(5) by (rule comp)
  show "is_finite (Length (op_mul_assign v (fdiv n (Length v))))"
    using fL by (simp only: w_def t_def)
  show "\<bar>valof (Length (op_mul_assign v (fdiv n (Length v)))) - valof n\<bar> \<le> valof n / 2 ^ 20"
    using len by (simp only: w_def t_def s_def)
  show "\<bar>valof (x (op_mul_assign v (fdiv n (Length v)))) - valof (x v) * (valof n / norm2 v)\<bar>
       \<le> valof n / 2 ^ 20"
    using cx by (simp only: w_def t_def s_def N_def)
  show "\<bar>valof (y (op_mul_assign v (fdiv n (Length v)))) - valof (y v) * (valof n / norm2 v)\<bar>
       \<le> valof n / 2 ^ 20"
    using cy by (simp only: w_def t_def s_def N_def)
qed

lemma rescaled_to_zero:
  assumes fin: "is_finite (Length v)" and fn: "is_finite n"
    and pos: "0 < valof (Length v)" and n: "valof n = 0"
  shows "is_finite (Length (op_mul_assign v (fdiv n (Length v))))"
    "valof (Length (op_mul_assign v (fdiv n (Length v)))) = 0"
    "valof (x (op_mul_assign v (fdiv n (Length v)))) = 0"
    "valof (y (op_mul_assign v (fdiv n (Length v)))) = 0"
proof -
  define t where "t = fdiv n (Length v)"
  define w where "w = op_mul_assign v t"
  have fx: "is_finite (x v)" and fy: "is_finite (y v)"
    using Length_parts(1,2) [OF fin] by simp_all
  have t: "is_finite t \<and> valof t = 0"
    unfolding t_def using fn fin n pos by (intro fdiv_zero) simp_all
  have xw: "x w = fmul (x v) t" and yw: "y w = fmul (y v) t"
    by (simp_all add: w_def op_mul_assign_def Let_def)
  have cx: "is_finite (x w) \<and> valof (x w) = 0"
    unfolding xw using fx t by (intro fmul_zero) simp_all
  have cy: "is_finite (y w) \<and> valof (y w) = 0"
    unfolding yw using fy t by (intro fmul_zero) simp_all
  have "is_finite (Length w) \<and> valof (Length w) = 0"
    using cx cy by (intro Length_zero) simp_all
  then show "is_finite (Length (op_mul_assign v (fdiv n (Length v))))"
    "valof (Length (op_mul_assign v (fdiv n (Length v)))) = 0"
    by (simp_all only: w_def t_def)
  show "valof (x (op_mul_assign v (fdiv n (Length v)))) = 0"
    "valof (y (op_mul_assign v (fdiv n (Length v)))) = 0"
    using cx cy by (simp_all only: w_def t_def)
qed

lemma epsilon_value: "epsilon = Finite False 14073749 (- 47)"
  by (simp add: epsilon_def float_eval)

lemma epsilon_lower: "1 / 2 ^ 24 \<le> valof epsilon"
  by (simp add: epsilon_value pow2_numeral)

lemma valof_fone: "is_finite fone \<and> valof fone = 1"
  by (simp add: fone_def pow2_numeral)

lemma valof_epsilon: "is_finite epsilon \<and> 0 < valof epsilon"
  by (simp add: epsilon_value)

lemma record_update_both: "v\<lparr>x := a, y := b\<rparr> = \<lparr>x = a, y = b\<rparr>"
  by (cases v) simp

lemma op_mul_assign_eq: "op_mul_assign v t = \<lparr>x = fmul (x v) t, y = fmul (y v) t\<rparr>"
  by (cases v) (simp add: op_mul_assign_def Let_def)

lemma flt_not_fgt: "flt a b \<Longrightarrow> \<not> fgt a b"
  by (simp add: flt_def fgt_def)

lemma fle_not_fgt: "fle a b \<Longrightarrow> \<not> fgt a b"
  by (auto simp: fle_def fgt_def)

lemma Length_Zero: "Length Zero = fzero"
  by (simp add: Length_def Sqrt_def Zero_def Vector2f_1_def float_eval)

lemma Length_3_4:
  "Length \<lparr>x = Finite False 12582912 (- 22), y = Finite False 8388608 (- 21)\<rparr> =
     Finite False 10485760 (- 21)"
proof -
  have "fmul (Finite False 12582912 (- 22)) (Finite False 12582912 (- 22)) =
      Finite False 9437184 (- 20)"
    "fmul (Finite False 8388608 (- 21)) (Finite False 8388608 (- 21)) =
      Finite False 8388608 (- 19)"
    by (simp_all add: float_eval)
  moreover have "fadd (Finite False 9437184 (- 20)) (Finite False 8388608 (- 19)) =
      Finite False 13107200 (- 19)"
    by (simp add: float_eval)
  moreover have "fsqrt (Finite False 13107200 (- 19)) = Finite False 10485760 (- 21)"
    by (simp add: float_eval)
  ultimately show ?thesis
    by (simp add: Length_def Sqrt_def)
qed

section \<open>Normalisation\<close>

text \<open>
  C1, as stated, fails. The vector \<open>(1e-7f, 0)\<close> has the length \<open>1e-7f\<close>, which is not
  below the threshold, and \<open>Normalize\<close> sets it to \<open>(0, 0)\<close>, because the guard is
  \<open>length > epsilon\<close>. The vector \<open>(2 ^ 100, 0)\<close> has the length infinity, since the
  square overflows; its reciprocal is \<open>0\<close>, and \<open>Normalize\<close> makes the vector \<open>(0, 0)\<close>.
  The length of \<open>(0, 0)\<close> is \<open>0\<close>, not about \<open>1\<close>.
\<close>

theorem Normalize_at_threshold_and_overflow:
  "\<not> flt (Length \<lparr>x = epsilon, y = fzero\<rparr>) epsilon \<and>
   Normalize \<lparr>x = epsilon, y = fzero\<rparr> = \<lparr>x = fzero, y = fzero\<rparr> \<and>
   \<not> flt (Length \<lparr>x = Finite False 8388608 77, y = fzero\<rparr>) epsilon \<and>
   Normalize \<lparr>x = Finite False 8388608 77, y = fzero\<rparr> = \<lparr>x = fzero, y = fzero\<rparr> \<and>
   Length \<lparr>x = fzero, y = fzero\<rparr> = fzero \<and> valof fzero = 0"
proof -
  have "fmul (Finite False 14073749 (- 47)) (Finite False 14073749 (- 47)) =
      Finite False 11805916 (- 70)"
    and zz: "fmul (Finite False 0 (- 149)) (Finite False 0 (- 149)) = Finite False 0 (- 149)"
    by (simp_all add: float_eval)
  moreover have "fadd (Finite False 11805916 (- 70)) (Finite False 0 (- 149)) =
      Finite False 11805916 (- 70)"
    by (simp add: float_eval)
  moreover have "fsqrt (Finite False 11805916 (- 70)) = Finite False 14073749 (- 47)"
    by (simp add: float_eval)
  ultimately have small:
    "Length \<lparr>x = Finite False 14073749 (- 47), y = Finite False 0 (- 149)\<rparr> =
      Finite False 14073749 (- 47)"
    by (simp add: Length_def Sqrt_def)
  have "fmul (Finite False 8388608 77) (Finite False 8388608 77) = Infinity False"
    by (simp add: float_eval)
  then have big: "Length \<lparr>x = Finite False 8388608 77, y = Finite False 0 (- 149)\<rparr> =
      Infinity False"
    using zz by (simp add: Length_def Sqrt_def)
  have cmp: "\<not> flt (Finite False 14073749 (- 47)) (Finite False 14073749 (- 47))"
    "\<not> fgt (Finite False 14073749 (- 47)) (Finite False 14073749 (- 47))"
    "\<not> flt (Infinity False) (Finite False 14073749 (- 47))"
    "fgt (Infinity False) (Finite False 14073749 (- 47))"
    by (simp_all add: flt_def fgt_def rel_of_def)
  have "fdiv fone (Infinity False) = Finite False 0 (- 149)"
    by (simp add: fone_def)
  moreover have "fmul (Finite False 8388608 77) (Finite False 0 (- 149)) = Finite False 0 (- 149)"
    by (simp add: fround_def)
  ultimately have n2: "Normalize \<lparr>x = Finite False 8388608 77, y = Finite False 0 (- 149)\<rparr> =
      \<lparr>x = Finite False 0 (- 149), y = Finite False 0 (- 149)\<rparr>"
    unfolding Normalize_def Let_def epsilon_value fzero_def op_mul_assign_def big
    using cmp zz by simp
  have n1: "Normalize \<lparr>x = Finite False 14073749 (- 47), y = Finite False 0 (- 149)\<rparr> =
      \<lparr>x = Finite False 0 (- 149), y = Finite False 0 (- 149)\<rparr>"
    unfolding Normalize_def Let_def epsilon_value fzero_def small
    using cmp by simp
  have "fadd (Finite False 0 (- 149)) (Finite False 0 (- 149)) = Finite False 0 (- 149)"
    by (simp add: float_eval)
  then have lz: "Length \<lparr>x = Finite False 0 (- 149), y = Finite False 0 (- 149)\<rparr> =
      Finite False 0 (- 149)"
    using zz by (simp add: Length_def Sqrt_def)
  show ?thesis
    unfolding epsilon_value fzero_def small big n1 n2 lz using cmp by simp
qed

text \<open>
  C1, amended. For every vector: when \<open>Length() > 1e-7f\<close> does not hold, in
  particular when the length is below the threshold, and for the vector \<open>(0, 0)\<close>,
  \<open>Normalize\<close> sets the vector to exactly \<open>(0, 0)\<close>; when it holds, \<open>Normalize\<close>
  multiplies both components by \<open>1.f / Length()\<close>; and when it holds and the length
  is finite, the length of the result is finite and within \<open>2 ^ -20\<close> of \<open>1\<close>.
\<close>

theorem Normalize_guarded:
  "(\<not> fgt (Length v) epsilon \<longrightarrow> Normalize v = \<lparr>x = fzero, y = fzero\<rparr>) \<and>
   (flt (Length v) epsilon \<longrightarrow> Normalize v = \<lparr>x = fzero, y = fzero\<rparr>) \<and>
   Normalize Zero = \<lparr>x = fzero, y = fzero\<rparr> \<and>
   (fgt (Length v) epsilon \<longrightarrow>
      Normalize v =
        \<lparr>x = fmul (x v) (fdiv fone (Length v)), y = fmul (y v) (fdiv fone (Length v))\<rparr>) \<and>
   (fgt (Length v) epsilon \<and> is_finite (Length v) \<longrightarrow>
      is_finite (Length (Normalize v)) \<and> \<bar>valof (Length (Normalize v)) - 1\<bar> \<le> 1 / 2 ^ 20)"
proof -
  have low: "Normalize u = \<lparr>x = fzero, y = fzero\<rparr>" if "\<not> fgt (Length u) epsilon" for u
    using that by (simp add: Normalize_def Let_def record_update_both)
  have high: "Normalize v = op_mul_assign v (fdiv fone (Length v))" if "fgt (Length v) epsilon"
    using that by (simp add: Normalize_def Let_def)
  have "\<not> fgt (Length Zero) epsilon"
    by (simp add: Length_Zero fzero_def epsilon_value fgt_def rel_of_def pow2_numeral)
  then have zero: "Normalize Zero = \<lparr>x = fzero, y = fzero\<rparr>"
    by (rule low)
  have unit: "is_finite (Length (Normalize v)) \<and> \<bar>valof (Length (Normalize v)) - 1\<bar> \<le> 1 / 2 ^ 20"
    if g: "fgt (Length v) epsilon" and fin: "is_finite (Length v)"
  proof -
    have "valof epsilon < valof (Length v)"
      using g fin valof_epsilon by (simp add: fgt_finite)
    with epsilon_lower have l: "1 / 2 ^ 24 \<le> valof (Length v)"
      by linarith
    then have l60: "1 / 2 ^ 60 \<le> valof (Length v)"
      by simp
    have one: "is_finite fone" "1 / 2 ^ 60 \<le> valof fone" "valof fone \<le> 2 ^ 63"
      using valof_fone by simp_all
    have ratio: "valof fone \<le> 2 ^ 24 * valof (Length v)"
      using l valof_fone by simp
    note r = rescaled_Length [OF fin one(1) l60 one(2,3) ratio, folded high [OF g]]
    show ?thesis
      using r(1,2) by (simp add: valof_fone)
  qed
  show ?thesis
    using low [of v] zero high unit flt_not_fgt [of "Length v" epsilon]
    by (simp add: op_mul_assign_eq)
qed

text \<open>C1, amended, at the vectors \<open>(0, 0)\<close> and \<open>(3, 4)\<close>.\<close>

theorem Normalize_guarded_witness:
  "\<not> fgt (Length Zero) epsilon \<and> flt (Length Zero) epsilon \<and>
   Normalize Zero = \<lparr>x = fzero, y = fzero\<rparr> \<and>
   fgt (Length \<lparr>x = Finite False 12582912 (- 22), y = Finite False 8388608 (- 21)\<rparr>) epsilon \<and>
   is_finite (Length \<lparr>x = Finite False 12582912 (- 22), y = Finite False 8388608 (- 21)\<rparr>) \<and>
   is_finite (Length (Normalize
     \<lparr>x = Finite False 12582912 (- 22), y = Finite False 8388608 (- 21)\<rparr>)) \<and>
   \<bar>valof (Length (Normalize
     \<lparr>x = Finite False 12582912 (- 22), y = Finite False 8388608 (- 21)\<rparr>)) - 1\<bar>
     \<le> 1 / 2 ^ 20"
proof -
  have z: "\<not> fgt (Length Zero) epsilon" "flt (Length Zero) epsilon"
    by (simp_all add: Length_Zero fzero_def epsilon_value fgt_def flt_def rel_of_def
        pow2_numeral)
  define v where "v = \<lparr>x = Finite False 12582912 (- 22), y = Finite False 8388608 (- 21)\<rparr>"
  have len: "Length v = Finite False 10485760 (- 21)"
    unfolding v_def by (rule Length_3_4)
  have g: "fgt (Length v) epsilon"
    by (simp add: len epsilon_value fgt_def rel_of_def pow2_numeral)
  have f: "is_finite (Length v)"
    by (simp add: len)
  from Normalize_guarded [of Zero] have zero: "Normalize Zero = \<lparr>x = fzero, y = fzero\<rparr>"
    using z(1) by blast
  from Normalize_guarded [of v] have "fgt (Length v) epsilon \<and> is_finite (Length v) \<longrightarrow>
      is_finite (Length (Normalize v)) \<and> \<bar>valof (Length (Normalize v)) - 1\<bar> \<le> 1 / 2 ^ 20"
    by blast
  then have "is_finite (Length (Normalize v)) \<and> \<bar>valof (Length (Normalize v)) - 1\<bar> \<le> 1 / 2 ^ 20"
    using g f by blast
  then show ?thesis
    using z g f zero unfolding v_def [symmetric] by blast
qed

section \<open>Limiting the length\<close>

lemma Limit_3_4_tiny:
  "Limit \<lparr>x = Finite False 12582912 (- 22), y = Finite False 8388608 (- 21)\<rparr>
     (Finite False 8388608 (- 99)) =
     \<lparr>x = Finite False 10066330 (- 100), y = Finite False 13421773 (- 100)\<rparr> \<and>
   Length \<lparr>x = Finite False 10066330 (- 100), y = Finite False 13421773 (- 100)\<rparr> =
     Finite False 0 (- 149)"
proof -
  have len: "Length \<lparr>x = Finite False 12582912 (- 22), y = Finite False 8388608 (- 21)\<rparr> =
      Finite False 10485760 (- 21)"
    by (rule Length_3_4)
  have cmp: "fgt (Finite False 10485760 (- 21)) (Finite False 8388608 (- 99))"
    by (simp add: fgt_def rel_of_def pow2_numeral)
  have quot: "fdiv (Finite False 8388608 (- 99)) (Finite False 10485760 (- 21)) =
      Finite False 13421773 (- 102)"
    by (simp add: float_eval)
  have mul: "fmul (Finite False 12582912 (- 22)) (Finite False 13421773 (- 102)) =
      Finite False 10066330 (- 100)"
    "fmul (Finite False 8388608 (- 21)) (Finite False 13421773 (- 102)) =
      Finite False 13421773 (- 100)"
    "fmul (Finite False 10066330 (- 100)) (Finite False 10066330 (- 100)) =
      Finite False 0 (- 149)"
    "fmul (Finite False 13421773 (- 100)) (Finite False 13421773 (- 100)) =
      Finite False 0 (- 149)"
    by (simp_all add: float_eval)
  have add: "fadd (Finite False 0 (- 149)) (Finite False 0 (- 149)) = Finite False 0 (- 149)"
    by (simp add: float_eval)
  have root: "fsqrt (Finite False 0 (- 149)) = Finite False 0 (- 149)"
    by simp
  have "Limit \<lparr>x = Finite False 12582912 (- 22), y = Finite False 8388608 (- 21)\<rparr>
      (Finite False 8388608 (- 99)) =
      \<lparr>x = Finite False 10066330 (- 100), y = Finite False 13421773 (- 100)\<rparr>"
    unfolding Limit_def Let_def len op_mul_assign_def
    by (simp only: cmp if_True quot mul Vector2f.select_convs Vector2f.update_convs)
  moreover have "Length \<lparr>x = Finite False 10066330 (- 100), y = Finite False 13421773 (- 100)\<rparr> =
      Finite False 0 (- 149)"
    by (simp only: Length_def Sqrt_def Vector2f.select_convs mul add root)
  ultimately show ?thesis
    by simp
qed

text \<open>
  C2, as stated, fails. For \<open>v = (2 ^ 100, 0)\<close> and \<open>maxLen = 1\<close> the length is
  infinity, the scale \<open>1 / infinity\<close> is \<open>0\<close>, and the result is \<open>(0, 0)\<close>, of length
  \<open>0\<close>. For \<open>v = (3, 4)\<close> and \<open>maxLen = 2 ^ -76\<close> the length \<open>5\<close> is finite and exceeds
  \<open>maxLen\<close>, and the squares of the scaled components underflow to \<open>0\<close>, so the
  length of the result is \<open>0\<close>, not about \<open>maxLen\<close>. The comment in the code assumes
  \<open>value >= 0\<close>, which the claim does not: for \<open>v = (1, 0)\<close> and \<open>maxLen = -1\<close> the
  length \<open>1\<close> exceeds \<open>maxLen\<close>, and \<open>Limit\<close> scales by \<open>-1\<close>: the result \<open>(-1, -0)\<close>
  points the other way and its length is \<open>1\<close>, not about \<open>-1\<close>.
\<close>

theorem Limit_overflow_underflow_negative:
  "fgt (Length \<lparr>x = Finite False 8388608 77, y = fzero\<rparr>) fone \<and>
   Limit \<lparr>x = Finite False 8388608 77, y = fzero\<rparr> fone = \<lparr>x = fzero, y = fzero\<rparr> \<and>
   Length \<lparr>x = fzero, y = fzero\<rparr> = fzero \<and>
   fgt (Length \<lparr>x = Finite False 12582912 (- 22), y = Finite False 8388608 (- 21)\<rparr>)
     (Finite False 8388608 (- 99)) \<and>
   is_finite (Length \<lparr>x = Finite False 12582912 (- 22), y = Finite False 8388608 (- 21)\<rparr>) \<and>
   0 < valof (Finite False 8388608 (- 99)) \<and>
   Length (Limit \<lparr>x = Finite False 12582912 (- 22), y = Finite False 8388608 (- 21)\<rparr>
     (Finite False 8388608 (- 99))) = fzero \<and>
   fgt (Length \<lparr>x = fone, y = fzero\<rparr>) (fneg fone) \<and>
   Limit \<lparr>x = fone, y = fzero\<rparr> (fneg fone) = \<lparr>x = fneg fone, y = Finite True 0 (- 149)\<rparr> \<and>
   Length \<lparr>x = fneg fone, y = Finite True 0 (- 149)\<rparr> = fone"
proof -
  have one: "fone = Finite False 8388608 (- 23)"
    by (simp add: fone_def)
  have mul: "fmul (Finite False 8388608 (- 23)) (Finite False 8388608 (- 23)) =
      Finite False 8388608 (- 23)"
    "fmul (Finite True 8388608 (- 23)) (Finite True 8388608 (- 23)) =
      Finite False 8388608 (- 23)"
    "fmul (Finite False 8388608 (- 23)) (Finite True 8388608 (- 23)) =
      Finite True 8388608 (- 23)"
    "fmul (Finite False 0 (- 149)) (Finite True 8388608 (- 23)) = Finite True 0 (- 149)"
    "fmul (Finite False 0 (- 149)) (Finite False 0 (- 149)) = Finite False 0 (- 149)"
    "fmul (Finite True 0 (- 149)) (Finite True 0 (- 149)) = Finite False 0 (- 149)"
    "fmul (Finite False 8388608 77) (Finite False 8388608 77) = Infinity False"
    "fmul (Finite False 8388608 77) (Finite False 0 (- 149)) = Finite False 0 (- 149)"
    by (simp_all add: float_eval)
  have add: "fadd (Finite False 8388608 (- 23)) (Finite False 0 (- 149)) =
      Finite False 8388608 (- 23)"
    "fadd (Finite False 0 (- 149)) (Finite False 0 (- 149)) = Finite False 0 (- 149)"
    by (simp_all add: float_eval)
  have root: "fsqrt (Finite False 8388608 (- 23)) = Finite False 8388608 (- 23)"
    by (simp add: float_eval)
  have special: "fsqrt (Finite False 0 (- 149)) = Finite False 0 (- 149)"
    "fsqrt (Infinity False) = Infinity False"
    "fadd (Infinity False) (Finite False 0 (- 149)) = Infinity False"
    "fdiv (Finite False 8388608 (- 23)) (Infinity False) = Finite False 0 (- 149)"
    by simp_all
  have quot: "fdiv (Finite True 8388608 (- 23)) (Finite False 8388608 (- 23)) =
      Finite True 8388608 (- 23)"
    by (simp add: float_eval)
  have l1: "Length \<lparr>x = Finite False 8388608 (- 23), y = Finite False 0 (- 149)\<rparr> =
      Finite False 8388608 (- 23)"
    by (simp only: Length_def Sqrt_def Vector2f.select_convs mul add root)
  have l2: "Length \<lparr>x = Finite True 8388608 (- 23), y = Finite True 0 (- 149)\<rparr> =
      Finite False 8388608 (- 23)"
    by (simp only: Length_def Sqrt_def Vector2f.select_convs mul add root)
  have l3: "Length \<lparr>x = Finite False 8388608 77, y = Finite False 0 (- 149)\<rparr> = Infinity False"
    by (simp only: Length_def Sqrt_def Vector2f.select_convs mul special)
  have l4: "Length \<lparr>x = Finite False 0 (- 149), y = Finite False 0 (- 149)\<rparr> =
      Finite False 0 (- 149)"
    by (simp only: Length_def Sqrt_def Vector2f.select_convs mul add special)
  have cmp: "fgt (Finite False 8388608 (- 23)) (Finite True 8388608 (- 23))"
    "fgt (Infinity False) (Finite False 8388608 (- 23))"
    by (simp_all add: fgt_def rel_of_def pow2_numeral)
  have m1: "Limit \<lparr>x = Finite False 8388608 (- 23), y = Finite False 0 (- 149)\<rparr>
      (Finite True 8388608 (- 23)) =
      \<lparr>x = Finite True 8388608 (- 23), y = Finite True 0 (- 149)\<rparr>"
    unfolding Limit_def Let_def l1 op_mul_assign_def
    by (simp only: cmp if_True quot mul Vector2f.select_convs Vector2f.update_convs)
  have m2: "Limit \<lparr>x = Finite False 8388608 77, y = Finite False 0 (- 149)\<rparr>
      (Finite False 8388608 (- 23)) =
      \<lparr>x = Finite False 0 (- 149), y = Finite False 0 (- 149)\<rparr>"
    unfolding Limit_def Let_def l3 op_mul_assign_def
    by (simp only: cmp if_True special mul Vector2f.select_convs Vector2f.update_convs)
  have first: "fgt (Length \<lparr>x = fone, y = fzero\<rparr>) (fneg fone) \<and>
    Limit \<lparr>x = fone, y = fzero\<rparr> (fneg fone) = \<lparr>x = fneg fone, y = Finite True 0 (- 149)\<rparr> \<and>
    Length \<lparr>x = fneg fone, y = Finite True 0 (- 149)\<rparr> = fone \<and>
    fgt (Length \<lparr>x = Finite False 8388608 77, y = fzero\<rparr>) fone \<and>
    Limit \<lparr>x = Finite False 8388608 77, y = fzero\<rparr> fone = \<lparr>x = fzero, y = fzero\<rparr> \<and>
    Length \<lparr>x = fzero, y = fzero\<rparr> = fzero"
    unfolding one fzero_def fneg.simps using cmp by (simp add: l1 l2 l3 l4 m1 m2)
  have "fgt (Length \<lparr>x = Finite False 12582912 (- 22), y = Finite False 8388608 (- 21)\<rparr>)
      (Finite False 8388608 (- 99))"
    "is_finite (Length \<lparr>x = Finite False 12582912 (- 22), y = Finite False 8388608 (- 21)\<rparr>)"
    "0 < valof (Finite False 8388608 (- 99))"
    by (simp_all add: Length_3_4 fgt_def rel_of_def pow2_numeral)
  moreover have "Length (Limit
      \<lparr>x = Finite False 12582912 (- 22), y = Finite False 8388608 (- 21)\<rparr>
      (Finite False 8388608 (- 99))) = fzero"
    using Limit_3_4_tiny by (simp add: fzero_def)
  ultimately show ?thesis
    using first by blast
qed

text \<open>
  C2, amended. For every vector and \<open>maxLen\<close>: when \<open>Length() <= maxLen\<close>, \<open>Limit\<close>
  leaves the vector unchanged; when \<open>Length() > maxLen\<close>, \<open>Limit\<close> multiplies both
  components by \<open>maxLen / Length()\<close>; and when moreover the length and \<open>maxLen\<close> are
  finite and \<open>maxLen\<close> is zero or between \<open>2 ^ -60\<close> and \<open>2 ^ 63\<close>, the length of the
  result is finite and equals \<open>maxLen\<close> within a relative error of \<open>2 ^ -20\<close>, and each
  component of the result differs from that of the vector times \<open>maxLen\<close> over its
  exact length by at most \<open>maxLen / 2 ^ 20\<close>, which is the same direction.
\<close>

theorem Limit_guarded:
  "(fle (Length v) s \<longrightarrow> Limit v s = v) \<and>
   (fgt (Length v) s \<longrightarrow>
      Limit v s =
        \<lparr>x = fmul (x v) (fdiv s (Length v)), y = fmul (y v) (fdiv s (Length v))\<rparr>) \<and>
   (fgt (Length v) s \<and> is_finite (Length v) \<and> is_finite s \<and>
    (valof s = 0 \<or> (1 / 2 ^ 60 \<le> valof s \<and> valof s \<le> 2 ^ 63)) \<longrightarrow>
      is_finite (Length (Limit v s)) \<and>
      \<bar>valof (Length (Limit v s)) - valof s\<bar> \<le> valof s / 2 ^ 20 \<and>
      \<bar>valof (x (Limit v s)) - valof (x v) * (valof s / norm2 v)\<bar> \<le> valof s / 2 ^ 20 \<and>
      \<bar>valof (y (Limit v s)) - valof (y v) * (valof s / norm2 v)\<bar> \<le> valof s / 2 ^ 20)"
proof -
  have low: "Limit v s = v" if "fle (Length v) s"
    using fle_not_fgt [OF that] by (simp add: Limit_def Let_def)
  have high: "Limit v s = op_mul_assign v (fdiv s (Length v))" if "fgt (Length v) s"
    using that by (simp add: Limit_def Let_def)
  have scaled: "is_finite (Length (Limit v s)) \<and>
      \<bar>valof (Length (Limit v s)) - valof s\<bar> \<le> valof s / 2 ^ 20 \<and>
      \<bar>valof (x (Limit v s)) - valof (x v) * (valof s / norm2 v)\<bar> \<le> valof s / 2 ^ 20 \<and>
      \<bar>valof (y (Limit v s)) - valof (y v) * (valof s / norm2 v)\<bar> \<le> valof s / 2 ^ 20"
    if g: "fgt (Length v) s" and fin: "is_finite (Length v)" and fs: "is_finite s"
      and r: "valof s = 0 \<or> (1 / 2 ^ 60 \<le> valof s \<and> valof s \<le> 2 ^ 63)"
  proof -
    have less: "valof s < valof (Length v)"
      using g fin fs by (simp add: fgt_finite)
    show ?thesis
    proof (cases "valof s = 0")
      case True
      have "0 < valof (Length v)"
        using less True by simp
      note z = rescaled_to_zero [OF fin fs this True, folded high [OF g]]
      show ?thesis
        using z by (simp add: True)
    next
      case False
      then have s: "1 / 2 ^ 60 \<le> valof s" "valof s \<le> 2 ^ 63"
        using r by simp_all
      have l60: "1 / 2 ^ 60 \<le> valof (Length v)"
        using s(1) less by linarith
      have "(0::real) < 1 / 2 ^ 60"
        by simp
      then have "0 < valof (Length v)"
        using l60 by linarith
      then have "valof (Length v) \<le> 2 ^ 24 * valof (Length v)"
        by simp
      then have ratio: "valof s \<le> 2 ^ 24 * valof (Length v)"
        using less by linarith
      note r = rescaled_Length [OF fin fs l60 s ratio, folded high [OF g]]
      show ?thesis
        using r by blast
    qed
  qed
  show ?thesis
    using low high scaled by (simp add: op_mul_assign_eq)
qed

text \<open>C2, amended, at \<open>v = (3, 4)\<close> with \<open>maxLen = 10\<close> and with \<open>maxLen = 2\<close>.\<close>

theorem Limit_guarded_witness:
  "fle (Length \<lparr>x = Finite False 12582912 (- 22), y = Finite False 8388608 (- 21)\<rparr>)
     (Finite False 10485760 (- 20)) \<and>
   Limit \<lparr>x = Finite False 12582912 (- 22), y = Finite False 8388608 (- 21)\<rparr>
     (Finite False 10485760 (- 20)) =
     \<lparr>x = Finite False 12582912 (- 22), y = Finite False 8388608 (- 21)\<rparr> \<and>
   fgt (Length \<lparr>x = Finite False 12582912 (- 22), y = Finite False 8388608 (- 21)\<rparr>)
     (Finite False 8388608 (- 22)) \<and>
   is_finite (Length \<lparr>x = Finite False 12582912 (- 22), y = Finite False 8388608 (- 21)\<rparr>) \<and>
   is_finite (Finite False 8388608 (- 22)) \<and>
   1 / 2 ^ 60 \<le> valof (Finite False 8388608 (- 22)) \<and>
   valof (Finite False 8388608 (- 22)) \<le> 2 ^ 63 \<and>
   is_finite (Length (Limit
     \<lparr>x = Finite False 12582912 (- 22), y = Finite False 8388608 (- 21)\<rparr>
     (Finite False 8388608 (- 22)))) \<and>
   \<bar>valof (Length (Limit
     \<lparr>x = Finite False 12582912 (- 22), y = Finite False 8388608 (- 21)\<rparr>
     (Finite False 8388608 (- 22)))) - valof (Finite False 8388608 (- 22))\<bar>
     \<le> valof (Finite False 8388608 (- 22)) / 2 ^ 20"
proof -
  define v where "v = \<lparr>x = Finite False 12582912 (- 22), y = Finite False 8388608 (- 21)\<rparr>"
  define ten two where "ten = Finite False 10485760 (- 20)" and "two = Finite False 8388608 (- 22)"
  have len: "Length v = Finite False 10485760 (- 21)"
    unfolding v_def by (rule Length_3_4)
  have le: "fle (Length v) ten"
    by (simp add: len ten_def fle_def rel_of_def pow2_numeral)
  have g: "fgt (Length v) two"
    by (simp add: len two_def fgt_def rel_of_def pow2_numeral)
  have r: "is_finite (Length v)" "is_finite two" "1 / 2 ^ 60 \<le> valof two" "valof two \<le> 2 ^ 63"
    by (simp_all add: len two_def pow2_numeral)
  from Limit_guarded [of v ten] le have same: "Limit v ten = v"
    by blast
  from Limit_guarded [of v two] have "fgt (Length v) two \<and> is_finite (Length v) \<and>
      is_finite two \<and> (valof two = 0 \<or> (1 / 2 ^ 60 \<le> valof two \<and> valof two \<le> 2 ^ 63)) \<longrightarrow>
      is_finite (Length (Limit v two)) \<and>
      \<bar>valof (Length (Limit v two)) - valof two\<bar> \<le> valof two / 2 ^ 20"
    by blast
  then have "is_finite (Length (Limit v two)) \<and>
      \<bar>valof (Length (Limit v two)) - valof two\<bar> \<le> valof two / 2 ^ 20"
    using g r by blast
  then show ?thesis
    using le same g r unfolding v_def [symmetric] ten_def [symmetric] two_def [symmetric]
    by blast
qed

end
